theory Spec2Isabelle
  imports Main "HOL-Library.Word"
begin


section \<open>Values of the interpreter that the concurrency primitives touch\<close>

text \<open>
  The primitives of \<^verbatim>\<open>prim_concurrency.go\<close> receive an argument list and an
  environment and return a pair of a result and an error. The interpreter's values
  are modelled by the datatype \<open>data\<close>: only the kinds the primitives test for
  (functions, objects, integers) and the kinds they build (booleans, strings) matter.
  An environment (\<^verbatim>\<open>*SymbolTableFrame\<close>) and the payload of an object
  (\<^verbatim>\<open>unsafe.Pointer\<close>) are addresses.
\<close>

type_synonym int64 = "64 word"
type_synonym env = nat
type_synonym ptr = nat

record func =
  RequiredArgCount :: int
  FuncId :: nat

datatype data =
    NilData
  | Integer int64
  | Boolean bool
  | String string
  | Symbol string
  | Function func
  | Object string ptr
  | ConsCell data data

text \<open>
  Modelled from the spec: the list accessors, the value constructors and the tagged
  handle of the runtime (\<^verbatim>\<open>Car\<close>, \<^verbatim>\<open>Cadr\<close>,
  \<^verbatim>\<open>InternalMakeList\<close>, \<^verbatim>\<open>ObjectWithTypeAndValue\<close>,
  \<^verbatim>\<open>ObjectP\<close>, \<^verbatim>\<open>ObjectType\<close>, \<^verbatim>\<open>ObjectValue\<close>,
  \<^verbatim>\<open>BooleanWithValue\<close>, \<^verbatim>\<open>StringWithValue\<close>) live in other files of
  the interpreter. The spec asks of them a handle that carries a payload under a type
  tag and gives it back under that tag, and constructors of integer, boolean and string
  values; an accessor applied to a value of another kind gives the empty value.
  The tests \<^verbatim>\<open>FunctionP\<close> and \<^verbatim>\<open>IntegerP\<close> with their accessors
  \<^verbatim>\<open>FunctionValue\<close> and \<^verbatim>\<open>IntegerValue\<close> are the case distinctions on
  \<open>Function\<close> and \<open>Integer\<close>; an integer is a 64-bit value.
\<close>

fun Car :: "data \<Rightarrow> data" where
  "Car (ConsCell a b) = a"
| "Car d = NilData"

fun Cdr :: "data \<Rightarrow> data" where
  "Cdr (ConsCell a b) = b"
| "Cdr d = NilData"

definition Cadr :: "data \<Rightarrow> data" where
  "Cadr d = Car (Cdr d)"

definition InternalMakeList :: "data \<Rightarrow> data" where
  "InternalMakeList d = ConsCell d NilData"

definition ObjectWithTypeAndValue :: "string \<Rightarrow> ptr \<Rightarrow> data" where
  "ObjectWithTypeAndValue t p = Object t p"

definition BooleanWithValue :: "bool \<Rightarrow> data" where
  "BooleanWithValue b = Boolean b"

definition StringWithValue :: "string \<Rightarrow> data" where
  "StringWithValue s = String s"

definition ObjectP :: "data \<Rightarrow> bool" where
  "ObjectP d = (case d of Object t p \<Rightarrow> True | _ \<Rightarrow> False)"

fun ObjectValue :: "data \<Rightarrow> ptr option" where
  "ObjectValue (Object t p) = Some p"
| "ObjectValue d = None"

fun ObjectType :: "data \<Rightarrow> string" where
  "ObjectType (Object t p) = t"
| "ObjectType d = []"

text \<open>
  An error is the pair that \<^verbatim>\<open>ProcessError(fmt.Sprintf(format, arg), env)\<close> is
  built from: the format string of the source, the value formatted into it and the
  environment. \<open>HostError\<close> stands for whatever error the evaluator or a callback
  returns.
\<close>

datatype fmtarg = ArgV data | ArgD int | ArgS string

datatype error = ProcessError string fmtarg env | HostError string

text \<open>
  A call either returns, or panics, or blocks. \<open>Panicked s\<close> carries the text
  that \<^verbatim>\<open>runtime.Stack\<close> prints for the panicking goroutine when the panic is
  recovered; the value of the panic is never looked at beyond being there.
\<close>

datatype 'a run = Returned 'a | Panicked string | Blocked

section \<open>Channels and timers of the Go runtime\<close>

text \<open>
  A buffered channel \<^verbatim>\<open>make(chan T, n)\<close> holds at most \<open>n\<close> undelivered
  values. A send proceeds when the buffer has room and blocks otherwise (\<open>None\<close>);
  a receive takes the oldest value and blocks on an empty buffer.
\<close>

record 'a chan =
  capacity :: nat
  buffer :: "'a list"

definition make_chan :: "nat \<Rightarrow> 'a chan" where
  "make_chan n = \<lparr>capacity = n, buffer = []\<rparr>"

definition send :: "'a chan \<Rightarrow> 'a \<Rightarrow> 'a chan option" where
  "send ch v = (if length (buffer ch) < capacity ch
                then Some (ch\<lparr>buffer := buffer ch @ [v]\<rparr>) else None)"

definition recv :: "'a chan \<Rightarrow> ('a \<times> 'a chan) option" where
  "recv ch = (case buffer ch of [] \<Rightarrow> None | v # vs \<Rightarrow> Some (v, ch\<lparr>buffer := vs\<rparr>))"

text \<open>
  \<^verbatim>\<open>time.Duration(IntegerValue(millis)) * time.Millisecond\<close>: a 64-bit product
  in nanoseconds, which wraps around.
\<close>

definition Millisecond :: int64 where
  "Millisecond = 1000000"

definition Duration :: "int64 \<Rightarrow> int" where
  "Duration millis = sint (millis * Millisecond)"

text \<open>
  A timer has a channel \<open>C\<close> with one slot. While it is active and the clock has
  reached its expiry, the runtime puts one value into \<open>C\<close> without blocking and the
  timer becomes inactive. The model does this when the timer is next looked at
  (\<open>expire\<close>). A duration that is not positive expires at once. \<open>Reset\<close> makes
  the timer active with a new expiry and leaves a value that is already in \<open>C\<close>
  where it is, as the timers of the Go releases of the source's time do. The clock of
  the model is an unbounded count of nanoseconds.
\<close>

record Timer =
  C :: "int chan"
  active :: bool
  expiry :: int

definition expiry_of :: "int \<Rightarrow> int \<Rightarrow> int" where
  "expiry_of clock d = (if d \<le> 0 then clock else clock + d)"

definition NewTimer :: "int \<Rightarrow> int \<Rightarrow> Timer" where
  "NewTimer clock d = \<lparr>C = make_chan 1, active = True, expiry = expiry_of clock d\<rparr>"

definition expire :: "int \<Rightarrow> Timer \<Rightarrow> Timer" where
  "expire clock t =
     (if active t \<and> expiry t \<le> clock
      then t\<lparr>C := (case send (C t) (expiry t) of Some c \<Rightarrow> c | None \<Rightarrow> C t),
             active := False\<rparr>
      else t)"

definition Reset :: "int \<Rightarrow> int \<Rightarrow> Timer \<Rightarrow> Timer" where
  "Reset clock d t = (expire clock t)\<lparr>active := True, expiry := expiry_of clock d\<rparr>"

section \<open>Processes, tasks and the world\<close>

record Process =
  Env :: env
  Code :: data
  Wake :: "bool chan"
  Abort :: "bool chan"
  Restart :: "bool chan"
  ScheduleTimer :: "Timer option"

text \<open>
  The goroutine started by \<^verbatim>\<open>ForkImpl\<close> holds \<open>f\<close>, \<open>procObj\<close> and \<open>env\<close>,
  and whether its body has been entered. The goroutine started by
  \<^verbatim>\<open>ScheduleImpl\<close> holds \<open>proc\<close>, \<open>millis\<close>, \<open>f\<close>, \<open>procObj\<close> and \<open>env\<close>,
  and where its loop stands: still selecting (\<open>Armed\<close>), left through the abort case
  (\<open>Aborted\<close>), or left through the timer case (\<open>Fired\<close>).
\<close>

datatype status = Armed | Aborted | Fired

datatype task =
    ForkTask data data env bool
  | ScheduleTask ptr int64 data data env status

datatype logarg = LogE error | LogS string

record world =
  heap :: "Process list"
  clock :: int
  tasks :: "task list"
  calls :: "(data \<times> data \<times> env) list"
  logs :: "(string \<times> logarg) list"
  evals :: "(data \<times> env) list"
  crashed :: bool

text \<open>
  The collaborators outside the file: the evaluator and the application of a
  callable to a list of evaluated arguments. A callback is taken to come back, with a
  result, an error or a panic (\<open>Panic s\<close>, with the text of the stack); a callback
  that never comes back keeps its goroutine inside the call.
\<close>

datatype 'a outcome = Normal 'a | Panic string

record host =
  Eval :: "data \<Rightarrow> env \<Rightarrow> error + data"
  ApplyWithoutEval :: "data \<Rightarrow> data \<Rightarrow> env \<Rightarrow> (error + data) outcome"

definition eval :: "host \<Rightarrow> data \<Rightarrow> env \<Rightarrow> world \<Rightarrow> (error + data) \<times> world" where
  "eval h e en w = (Eval h e en, w\<lparr>evals := evals w @ [(e, en)]\<rparr>)"

text \<open>
  Modelled from the spec: the logging sink takes a format string and an argument; the
  log of the world keeps the pairs in the order of the calls.
\<close>

definition LogPrintf :: "string \<Rightarrow> logarg \<Rightarrow> world \<Rightarrow> world" where
  "LogPrintf format a w = w\<lparr>logs := logs w @ [(format, a)]\<rparr>"

definition newline :: char where
  "newline = CHR 0x0A"

section \<open>The fault-containment wrapper\<close>

fun Split :: "string \<Rightarrow> char \<Rightarrow> string list" where
  "Split [] sep = [[]]"
| "Split (x # xs) sep =
     (if x = sep then [] # Split xs sep
      else (case Split xs sep of [] \<Rightarrow> [[x]] | y # ys \<Rightarrow> (x # y) # ys))"

function log_stack :: "nat \<Rightarrow> string list \<Rightarrow> world \<Rightarrow> unit run \<times> world" where
  "log_stack i stack w =
     (if i < 7
      then (if i < length stack
            then log_stack (i + 1) stack (LogPrintf (''%s'' @ [newline]) (LogS (stack ! i)) w)
            else (Panicked ''index out of range'', w))
      else (Returned (), w))"
  by pat_completeness auto
termination
  by (relation "measure (\<lambda>(i, stack, w). 7 - i)") auto

definition recovered :: "string \<Rightarrow> world \<Rightarrow> unit run \<times> world" where
  "recovered trace w =
     (let stackBuf = take 10000 trace;
          stack = Split stackBuf newline
      in log_stack 0 stack w)"

definition callWithPanicProtection ::
  "(world \<Rightarrow> unit run \<times> world) \<Rightarrow> string \<Rightarrow> world \<Rightarrow> unit run \<times> world" where
  "callWithPanicProtection f prefix w =
     (case f w of
        (Panicked trace, w1) \<Rightarrow> recovered trace w1
      | (r, w1) \<Rightarrow> (r, w1))"



section \<open>The primitives\<close>

text \<open>
  Reading through a \<^verbatim>\<open>*Process\<close>: the address is an index into the heap of
  the world. An address that holds no process is a fault of the memory.
\<close>

definition deref :: "world \<Rightarrow> ptr option \<Rightarrow> (ptr \<times> Process) option" where
  "deref w a = (case a of None \<Rightarrow> None
                | Some p \<Rightarrow> if p < length (heap w) then Some (p, heap w ! p) else None)"

definition store :: "ptr \<Rightarrow> Process \<Rightarrow> world \<Rightarrow> world" where
  "store p proc w = w\<lparr>heap := (heap w)[p := proc]\<rparr>"

definition segfault :: string where
  "segfault = ''invalid memory address or nil pointer dereference''"

text \<open>Lines 57-60 and 161-164: the callback applied to the list of the handle.\<close>

definition apply_callback :: "host \<Rightarrow> data \<Rightarrow> data \<Rightarrow> env \<Rightarrow> world \<Rightarrow> unit run \<times> world" where
  "apply_callback h f procObj en w =
     (let w1 = w\<lparr>calls := calls w @ [(f, InternalMakeList procObj, en)]\<rparr>
      in case ApplyWithoutEval h f (InternalMakeList procObj) en of
           Normal (Inl forkedErr) \<Rightarrow>
             (Returned (), LogPrintf (''error in forked process: %#v'' @ [newline]) (LogE forkedErr) w1)
         | Normal (Inr v) \<Rightarrow> (Returned (), w1)
         | Panic trace \<Rightarrow> (Panicked trace, w1))"

definition ForkImpl :: "host \<Rightarrow> data \<Rightarrow> env \<Rightarrow> world \<Rightarrow> (error + data) run \<times> world" where
  "ForkImpl h args en w =
     (case eval h (Car args) en w of
        (Inl err, w1) \<Rightarrow> (Returned (Inl err), w1)
      | (Inr f, w1) \<Rightarrow>
          (case f of
             Function fn \<Rightarrow>
               if RequiredArgCount fn \<noteq> 1
               then (Returned (Inl (ProcessError
                       ''fork expected a function with arity of 1, but it was %d.''
                       (ArgD (RequiredArgCount fn)) en)), w1)
               else
                 (let proc = \<lparr>Env = en, Code = f, Wake = make_chan 1, Abort = make_chan 1,
                              Restart = make_chan 1, ScheduleTimer = None\<rparr>;
                      procObj = ObjectWithTypeAndValue ''Process'' (length (heap w1))
                  in (Returned (Inr procObj),
                      w1\<lparr>heap := heap w1 @ [proc],
                         tasks := tasks w1 @ [ForkTask f procObj en False]\<rparr>))
           | _ \<Rightarrow> (Returned (Inl (ProcessError
                       ''fork expected a function, but received %v.'' (ArgV f) en)), w1)))"

datatype sleep_case = OnWake | OnAfter

text \<open>
  Lines 89-96: the select of \<^verbatim>\<open>ProcSleepImpl\<close>, given which of its two cases
  proceeds. A case proceeds when its channel holds a value; the select blocks while
  neither does. \<open>tm\<close> is the timer behind \<^verbatim>\<open>time.After\<close>, made when the select
  is entered.
\<close>

definition sleep_select ::
  "sleep_case \<Rightarrow> ptr option \<Rightarrow> Timer \<Rightarrow> world \<Rightarrow> (error + data) run \<times> world" where
  "sleep_select cs a tm w =
     (case deref w a of
        None \<Rightarrow> (Panicked segfault, w)
      | Some (p, proc) \<Rightarrow>
          (case cs of
             OnWake \<Rightarrow>
               (case recv (Wake proc) of
                  None \<Rightarrow> (Blocked, w)
                | Some (v, ch) \<Rightarrow>
                    (Returned (Inr (BooleanWithValue True)), store p (proc\<lparr>Wake := ch\<rparr>) w))
           | OnAfter \<Rightarrow>
               (case recv (C (expire (clock w) tm)) of
                  None \<Rightarrow> (Blocked, w)
                | Some (t, c) \<Rightarrow> (Returned (Inr (BooleanWithValue False)), w))))"

definition ProcSleepImpl ::
  "host \<Rightarrow> sleep_case \<Rightarrow> data \<Rightarrow> env \<Rightarrow> world \<Rightarrow> (error + data) run \<times> world" where
  "ProcSleepImpl h cs args en w =
     (case eval h (Car args) en w of
        (Inl err, w1) \<Rightarrow> (Returned (Inl err), w1)
      | (Inr procObj, w1) \<Rightarrow>
          if \<not> ObjectP procObj \<or> ObjectType procObj \<noteq> ''Process''
          then (Returned (Inl (ProcessError
                  ''proc-sleep expects a Process object expected but received %s.''
                  (ArgS (ObjectType procObj)) en)), w1)
          else
            (case eval h (Cadr args) en w1 of
               (Inl err, w2) \<Rightarrow> (Returned (Inl err), w2)
             | (Inr millis, w2) \<Rightarrow>
                 (case millis of
                    Integer n \<Rightarrow>
                      sleep_select cs (ObjectValue procObj) (NewTimer (clock w2) (Duration n)) w2
                  | _ \<Rightarrow> (Returned (Inl (ProcessError
                            ''proc-sleep expected an integer as a delay, but received %v.''
                            (ArgV millis) en)), w2))))"

definition WakeImpl :: "host \<Rightarrow> data \<Rightarrow> env \<Rightarrow> world \<Rightarrow> (error + data) run \<times> world" where
  "WakeImpl h args en w =
     (case eval h (Car args) en w of
        (Inl err, w1) \<Rightarrow> (Returned (Inl err), w1)
      | (Inr procObj, w1) \<Rightarrow>
          if \<not> ObjectP procObj \<or> ObjectType procObj \<noteq> ''Process''
          then (Returned (Inl (ProcessError
                  ''wake expects a Process object expected but received %s.''
                  (ArgS (ObjectType procObj)) en)), w1)
          else
            (case deref w1 (ObjectValue procObj) of
               None \<Rightarrow> (Panicked segfault, w1)
             | Some (p, proc) \<Rightarrow>
                 (case send (Wake proc) True of
                    None \<Rightarrow> (Blocked, w1)
                  | Some ch \<Rightarrow>
                      (Returned (Inr (StringWithValue ''OK'')), store p (proc\<lparr>Wake := ch\<rparr>) w1))))"

definition ScheduleImpl :: "host \<Rightarrow> data \<Rightarrow> env \<Rightarrow> world \<Rightarrow> (error + data) run \<times> world" where
  "ScheduleImpl h args en w =
     (case eval h (Car args) en w of
        (Inl err, w1) \<Rightarrow> (Returned (Inl err), w1)
      | (Inr millis, w1) \<Rightarrow>
          (case millis of
             Integer n \<Rightarrow>
               (case eval h (Cadr args) en w1 of
                  (Inl err, w2) \<Rightarrow> (Returned (Inl err), w2)
                | (Inr f, w2) \<Rightarrow>
                    (case f of
                       Function fn \<Rightarrow>
                         if RequiredArgCount fn \<noteq> 1
                         then (Returned (Inl (ProcessError
                                 ''schedule expected a function with arity of 1, but it was %d.''
                                 (ArgD (RequiredArgCount fn)) en)), w2)
                         else
                           (let proc = \<lparr>Env = en, Code = f, Wake = make_chan 1,
                                        Abort = make_chan 1, Restart = make_chan 1,
                                        ScheduleTimer = Some (NewTimer (clock w2) (Duration n))\<rparr>;
                                p = length (heap w2);
                                procObj = ObjectWithTypeAndValue ''Process'' p
                            in (Returned (Inr procObj),
                                w2\<lparr>heap := heap w2 @ [proc],
                                   tasks := tasks w2 @ [ScheduleTask p n f procObj en Armed]\<rparr>))
                     | _ \<Rightarrow> (Returned (Inl (ProcessError
                                 ''schedule expected a function, but received %v.''
                                 (ArgV f) en)), w2)))
           | _ \<Rightarrow> (Returned (Inl (ProcessError
                       ''schedule expected an integer as a delay, but received %v.''
                       (ArgV millis) en)), w1)))"

definition AbandonImpl :: "host \<Rightarrow> data \<Rightarrow> env \<Rightarrow> world \<Rightarrow> (error + data) run \<times> world" where
  "AbandonImpl h args en w =
     (case eval h (Car args) en w of
        (Inl err, w1) \<Rightarrow> (Returned (Inl err), w1)
      | (Inr procObj, w1) \<Rightarrow>
          if \<not> ObjectP procObj \<or> ObjectType procObj \<noteq> ''Process''
          then (Returned (Inl (ProcessError
                  ''adandon expects a Process object expected but received %s.''
                  (ArgS (ObjectType procObj)) en)), w1)
          else
            (case deref w1 (ObjectValue procObj) of
               None \<Rightarrow> (Panicked segfault, w1)
             | Some (p, proc) \<Rightarrow>
                 (case send (Abort proc) True of
                    None \<Rightarrow> (Blocked, w1)
                  | Some ch \<Rightarrow>
                      (Returned (Inr (StringWithValue ''OK'')), store p (proc\<lparr>Abort := ch\<rparr>) w1))))"

definition ResetTimeoutImpl :: "host \<Rightarrow> data \<Rightarrow> env \<Rightarrow> world \<Rightarrow> (error + data) run \<times> world" where
  "ResetTimeoutImpl h args en w =
     (case eval h (Car args) en w of
        (Inl err, w1) \<Rightarrow> (Returned (Inl err), w1)
      | (Inr procObj, w1) \<Rightarrow>
          if \<not> ObjectP procObj \<or> ObjectType procObj \<noteq> ''Process''
          then (Returned (Inl (ProcessError
                  ''restart expects a Process object expected but received %s.''
                  (ArgS (ObjectType procObj)) en)), w1)
          else
            (case deref w1 (ObjectValue procObj) of
               None \<Rightarrow> (Panicked segfault, w1)
             | Some (p, proc) \<Rightarrow>
                 (case send (Restart proc) True of
                    Some ch \<Rightarrow>
                      (Returned (Inr (StringWithValue ''OK'')), store p (proc\<lparr>Restart := ch\<rparr>) w1)
                  | None \<Rightarrow>
                      (Returned (Inr (StringWithValue ''task was already completed or abandoned'')),
                       w1))))"

definition RegisterConcurrencyPrimitives ::
  "host \<Rightarrow> sleep_case \<Rightarrow>
   (string \<times> nat \<times> (data \<Rightarrow> env \<Rightarrow> world \<Rightarrow> (error + data) run \<times> world)) list" where
  "RegisterConcurrencyPrimitives h cs =
     [(''fork'', 1, ForkImpl h),
      (''proc-sleep'', 2, ProcSleepImpl h cs),
      (''wake'', 1, WakeImpl h),
      (''schedule'', 2, ScheduleImpl h),
      (''reset-timeout'', 1, ResetTimeoutImpl h),
      (''abandon'', 1, AbandonImpl h)]"

section \<open>The goroutines\<close>

datatype loop_case = OnAbort | OnRestart | OnTimer

definition set_task :: "nat \<Rightarrow> task \<Rightarrow> world \<Rightarrow> world" where
  "set_task i t w = w\<lparr>tasks := (tasks w)[i := t]\<rparr>"

text \<open>
  Lines 153-166: one turn of the loop of the controller, which is task \<open>i\<close>, given
  which case of its select proceeds. Leaving the loop is recorded in the task.
\<close>

definition loop_iteration ::
  "host \<Rightarrow> nat \<Rightarrow> loop_case \<Rightarrow> ptr \<Rightarrow> int64 \<Rightarrow> data \<Rightarrow> data \<Rightarrow> env \<Rightarrow> world
   \<Rightarrow> unit run \<times> world" where
  "loop_iteration h i cs p millis f procObj en w =
     (case deref w (Some p) of
        None \<Rightarrow> (Panicked segfault, w)
      | Some (q, proc) \<Rightarrow>
          (case ScheduleTimer proc of
             None \<Rightarrow> (Panicked segfault, w)
           | Some tm \<Rightarrow>
               (case cs of
                  OnAbort \<Rightarrow>
                    (case recv (Abort proc) of
                       None \<Rightarrow> (Blocked, w)
                     | Some (v, ch) \<Rightarrow>
                         (Returned (),
                          set_task i (ScheduleTask p millis f procObj en Aborted)
                            (store p (proc\<lparr>Abort := ch\<rparr>) w)))
                | OnRestart \<Rightarrow>
                    (case recv (Restart proc) of
                       None \<Rightarrow> (Blocked, w)
                     | Some (v, ch) \<Rightarrow>
                         (Returned (),
                          store p (proc\<lparr>Restart := ch,
                                        ScheduleTimer :=
                                          Some (Reset (clock w) (Duration millis) tm)\<rparr>) w))
                | OnTimer \<Rightarrow>
                    (case recv (C (expire (clock w) tm)) of
                       None \<Rightarrow> (Blocked, w)
                     | Some (t, c) \<Rightarrow>
                         apply_callback h f procObj en
                           (set_task i (ScheduleTask p millis f procObj en Fired)
                              (store p (proc\<lparr>ScheduleTimer :=
                                               Some ((expire (clock w) tm)\<lparr>C := c\<rparr>)\<rparr>) w))))))"

text \<open>
  The end of a goroutine's turn: a select that blocks leaves the goroutine where it
  was; a panic that leaves \<^verbatim>\<open>callWithPanicProtection\<close> ends the program.
\<close>

definition finish :: "unit run \<times> world \<Rightarrow> world option" where
  "finish rw = (case rw of
                  (Returned u, w1) \<Rightarrow> Some w1
                | (Panicked trace, w1) \<Rightarrow> Some (w1\<lparr>crashed := True\<rparr>)
                | (Blocked, w1) \<Rightarrow> None)"

definition run_task :: "host \<Rightarrow> nat \<Rightarrow> loop_case \<Rightarrow> world \<Rightarrow> world option" where
  "run_task h i cs w =
     (if i < length (tasks w)
      then (case tasks w ! i of
              ForkTask f procObj en started \<Rightarrow>
                if started then None
                else finish (callWithPanicProtection (apply_callback h f procObj en) ''fork''
                               (set_task i (ForkTask f procObj en True) w))
            | ScheduleTask p millis f procObj en st \<Rightarrow>
                if st \<noteq> Armed then None
                else finish (callWithPanicProtection
                               (loop_iteration h i cs p millis f procObj en) ''schedule'' w))
      else None)"

section \<open>Runs of the world\<close>

text \<open>
  What can happen next: the clock advances, a goroutine takes a turn, some path calls
  a primitive that comes back, or a path that waits in the select of
  \<^verbatim>\<open>ProcSleepImpl\<close> leaves it. A call that blocks or an event that cannot
  happen gives \<open>None\<close>.
\<close>

datatype event =
    Tick nat
  | Task nat loop_case
  | Call string sleep_case data env
  | Resume sleep_case ptr Timer

definition step :: "host \<Rightarrow> event \<Rightarrow> world \<Rightarrow> world option" where
  "step h ev w =
     (if crashed w then None
      else (case ev of
              Tick n \<Rightarrow> Some (w\<lparr>clock := clock w + int n\<rparr>)
            | Task i cs \<Rightarrow> run_task h i cs w
            | Call name cs args en \<Rightarrow>
                (case map_of (RegisterConcurrencyPrimitives h cs) name of
                   None \<Rightarrow> None
                 | Some (arity, impl) \<Rightarrow>
                     (case impl args en w of
                        (Returned r, w1) \<Rightarrow> Some w1
                      | (Panicked trace, w1) \<Rightarrow> None
                      | (Blocked, w1) \<Rightarrow> None))
            | Resume cs p tm \<Rightarrow>
                (case sleep_select cs (Some p) tm w of
                   (Returned r, w1) \<Rightarrow> Some w1
                 | (Panicked trace, w1) \<Rightarrow> None
                 | (Blocked, w1) \<Rightarrow> None)))"

fun run_events :: "host \<Rightarrow> event list \<Rightarrow> world \<Rightarrow> world option" where
  "run_events h [] w = Some w"
| "run_events h (ev # evs) w =
     (case step h ev w of None \<Rightarrow> None | Some w1 \<Rightarrow> run_events h evs w1)"

definition init :: world where
  "init = \<lparr>heap = [], clock = 0, tasks = [], calls = [], logs = [], evals = [], crashed = False\<rparr>"

section \<open>What every reachable world satisfies\<close>

definition invoked :: "ptr \<Rightarrow> world \<Rightarrow> (data \<times> data \<times> env) list" where
  "invoked p w =
     filter (\<lambda>c. fst (snd c) = InternalMakeList (ObjectWithTypeAndValue ''Process'' p)) (calls w)"

definition chan_ok :: "'a chan \<Rightarrow> bool" where
  "chan_ok ch = (capacity ch = 1 \<and> length (buffer ch) \<le> 1)"

definition proc_ok :: "Process \<Rightarrow> bool" where
  "proc_ok proc = (chan_ok (Wake proc) \<and> chan_ok (Abort proc) \<and> chan_ok (Restart proc)
                   \<and> (case ScheduleTimer proc of None \<Rightarrow> True | Some tm \<Rightarrow> chan_ok (C tm)))"

definition entry_ok :: "nat \<Rightarrow> task \<Rightarrow> Process \<Rightarrow> (data \<times> data \<times> env) list \<Rightarrow> bool" where
  "entry_ok i t proc cl =
     (case t of
        ForkTask f procObj en started \<Rightarrow>
          procObj = ObjectWithTypeAndValue ''Process'' i \<and> ScheduleTimer proc = None
          \<and> cl = (if started then [(f, InternalMakeList procObj, en)] else [])
      | ScheduleTask p millis f procObj en st \<Rightarrow>
          p = i \<and> procObj = ObjectWithTypeAndValue ''Process'' i
          \<and> ScheduleTimer proc \<noteq> None
          \<and> cl = (if st = Fired then [(f, InternalMakeList procObj, en)] else []))"

definition wf_world :: "world \<Rightarrow> bool" where
  "wf_world w = (length (tasks w) = length (heap w)
                 \<and> (\<forall>i<length (heap w). proc_ok (heap w ! i)
                       \<and> entry_ok i (tasks w ! i) (heap w ! i) (invoked i w))
                 \<and> (\<forall>i. length (heap w) \<le> i \<longrightarrow> invoked i w = []))"

section \<open>A small host and a few worlds to run the model on\<close>

text \<open>
  In \<open>example_host\<close> a symbol is unbound and every other expression evaluates to
  itself; a callback returns the empty list.
\<close>

definition example_host :: host where
  "example_host =
     \<lparr>Eval = (\<lambda>d en. case d of Symbol s \<Rightarrow> Inl (HostError ''unbound symbol'') | _ \<Rightarrow> Inr d),
      ApplyWithoutEval = (\<lambda>f a en. Normal (Inr NilData))\<rparr>"

definition callback1 :: data where
  "callback1 = Function \<lparr>RequiredArgCount = 1, FuncId = 0\<rparr>"

definition callback2 :: data where
  "callback2 = Function \<lparr>RequiredArgCount = 2, FuncId = 0\<rparr>"

definition handle0 :: data where
  "handle0 = Object ''Process'' 0"

definition example_trace :: string where
  "example_trace =
     ''goroutine 5 [running]:'' @ [newline] @ ''main.f()'' @ [newline] @ ''f.go:3''
       @ [newline] @ ''main.g()'' @ [newline] @ ''g.go:7'' @ [newline] @ ''main.h()''
       @ [newline] @ ''h.go:9'' @ [newline] @ ''created by main.main''"

definition scheduled_world :: world where
  "scheduled_world =
     \<lparr>heap = [\<lparr>Env = 0, Code = callback1, Wake = make_chan 1, Abort = make_chan 1,
               Restart = make_chan 1, ScheduleTimer = Some (NewTimer 0 0)\<rparr>],
      clock = 0,
      tasks = [ScheduleTask 0 0 callback1 handle0 0 Armed],
      calls = [], logs = [], evals = [(Integer 0, 0), (callback1, 0)], crashed = False\<rparr>"

definition fired_world :: world where
  "fired_world =
     \<lparr>heap = [\<lparr>Env = 0, Code = callback1, Wake = make_chan 1, Abort = make_chan 1,
               Restart = make_chan 1,
               ScheduleTimer = Some \<lparr>C = make_chan 1, active = False, expiry = 0\<rparr>\<rparr>],
      clock = 0,
      tasks = [ScheduleTask 0 0 callback1 handle0 0 Fired],
      calls = [(callback1, InternalMakeList handle0, 0)],
      logs = [], evals = [(Integer 0, 0), (callback1, 0)], crashed = False\<rparr>"

definition schedule_now :: event where
  "schedule_now = Call ''schedule'' OnWake (ConsCell (Integer 0) (ConsCell callback1 NilData)) 0"

definition forked_world :: world where
  "forked_world =
     \<lparr>heap = [\<lparr>Env = 0, Code = callback1, Wake = make_chan 1, Abort = make_chan 1,
               Restart = make_chan 1, ScheduleTimer = None\<rparr>],
      clock = 0,
      tasks = [ForkTask callback1 handle0 0 False],
      calls = [], logs = [], evals = [(callback1, 0)], crashed = False\<rparr>"

definition fork_now :: event where
  "fork_now = Call ''fork'' OnWake (ConsCell callback1 NilData) 0"

definition handle0_args :: data where
  "handle0_args = ConsCell handle0 NilData"

text \<open>The same worlds after one more event has been put into a slot of process 0.\<close>

definition with_wake :: "world \<Rightarrow> world" where
  "with_wake w = w\<lparr>heap := [(heap w ! 0)\<lparr>Wake := \<lparr>capacity = 1, buffer = [True]\<rparr>\<rparr>]\<rparr>"

definition with_abort :: "world \<Rightarrow> world" where
  "with_abort w = w\<lparr>heap := [(heap w ! 0)\<lparr>Abort := \<lparr>capacity = 1, buffer = [True]\<rparr>\<rparr>]\<rparr>"

text \<open>
  A callback scheduled 100 ms ahead, and the same world 50 ms later with one event
  in the restart channel.
\<close>

definition schedule_args :: data where
  "schedule_args = ConsCell (Integer 100) (ConsCell callback1 NilData)"

definition later_world :: world where
  "later_world =
     \<lparr>heap = [\<lparr>Env = 0, Code = callback1, Wake = make_chan 1, Abort = make_chan 1,
               Restart = make_chan 1,
               ScheduleTimer = Some \<lparr>C = make_chan 1, active = True, expiry = 100000000\<rparr>\<rparr>],
      clock = 0,
      tasks = [ScheduleTask 0 100 callback1 handle0 0 Armed],
      calls = [], logs = [], evals = [(Integer 100, 0), (callback1, 0)], crashed = False\<rparr>"

definition restart_pending :: world where
  "restart_pending =
     \<lparr>heap = [\<lparr>Env = 0, Code = callback1, Wake = make_chan 1, Abort = make_chan 1,
               Restart = \<lparr>capacity = 1, buffer = [True]\<rparr>,
               ScheduleTimer = Some \<lparr>C = make_chan 1, active = True, expiry = 100000000\<rparr>\<rparr>],
      clock = 50000000,
      tasks = [ScheduleTask 0 100 callback1 handle0 0 Armed],
      calls = [], logs = [],
      evals = [(Integer 100, 0), (callback1, 0), (handle0, 0)], crashed = False\<rparr>"

definition rearmed :: world where
  "rearmed =
     \<lparr>heap = [\<lparr>Env = 0, Code = callback1, Wake = make_chan 1, Abort = make_chan 1,
               Restart = make_chan 1,
               ScheduleTimer = Some \<lparr>C = make_chan 1, active = True, expiry = 150000000\<rparr>\<rparr>],
      clock = 50000000,
      tasks = [ScheduleTask 0 100 callback1 handle0 0 Armed],
      calls = [], logs = [],
      evals = [(Integer 100, 0), (callback1, 0), (handle0, 0)], crashed = False\<rparr>"

text \<open>The world after \<open>schedule\<close>, \<open>abandon\<close> and the abort case of the controller.\<close>

definition aborted_world :: world where
  "aborted_world =
     \<lparr>heap = [\<lparr>Env = 0, Code = callback1, Wake = make_chan 1, Abort = make_chan 1,
               Restart = make_chan 1, ScheduleTimer = Some (NewTimer 0 0)\<rparr>],
      clock = 0,
      tasks = [ScheduleTask 0 0 callback1 handle0 0 Aborted],
      calls = [], logs = [],
      evals = [(Integer 0, 0), (callback1, 0), (handle0, 0)], crashed = False\<rparr>"

definition sleep_args :: data where
  "sleep_args = ConsCell handle0 (ConsCell (Integer 100) NilData)"

section \<open>Events that fill a signal channel, and controllers that still run\<close>

fun abandons :: "host \<Rightarrow> ptr \<Rightarrow> event \<Rightarrow> bool" where
  "abandons h p (Call name cs args en) =
     (name = ''abandon'' \<and> Eval h (Car args) en = Inr (Object ''Process'' p))"
| "abandons h p ev = False"

fun resets :: "host \<Rightarrow> ptr \<Rightarrow> event \<Rightarrow> bool" where
  "resets h p (Call name cs args en) =
     (name = ''reset-timeout'' \<and> Eval h (Car args) en = Inr (Object ''Process'' p))"
| "resets h p ev = False"

fun armed :: "task \<Rightarrow> bool" where
  "armed (ScheduleTask p millis f procObj en st) = (st = Armed)"
| "armed (ForkTask f procObj en started) = False"

section \<open>Frame and invariant lemmas\<close>

declare log_stack.simps [simp del]

lemma wf_init: "wf_world init"
  by (simp add: wf_world_def init_def invoked_def)

lemma wf_cong:
  "heap w' = heap w \<Longrightarrow> tasks w' = tasks w \<Longrightarrow> calls w' = calls w \<Longrightarrow> wf_world w' = wf_world w"
  by (simp add: wf_world_def invoked_def)

lemma log_stack_frame:
  "log_stack i st w = (r, w') \<Longrightarrow>
     heap w' = heap w \<and> tasks w' = tasks w \<and> calls w' = calls w \<and> clock w' = clock w
     \<and> crashed w' = crashed w \<and> evals w' = evals w \<and> r \<noteq> Blocked"
proof (induction i st w arbitrary: r w' rule: log_stack.induct)
  case (1 i stack w)
  from "1.prems" show ?case
    by (subst (asm) log_stack.simps) (auto simp: LogPrintf_def split: if_splits dest!: "1.IH")
qed

lemma recovered_frame:
  "recovered t w = (r, w') \<Longrightarrow>
     heap w' = heap w \<and> tasks w' = tasks w \<and> calls w' = calls w \<and> clock w' = clock w
     \<and> crashed w' = crashed w \<and> evals w' = evals w \<and> r \<noteq> Blocked"
  unfolding recovered_def Let_def by (rule log_stack_frame)

lemma protect_frame:
  assumes "callWithPanicProtection f prefix w = (r, w')" and "f w = (r1, w1)"
  shows "heap w' = heap w1 \<and> tasks w' = tasks w1 \<and> calls w' = calls w1 \<and> clock w' = clock w1
     \<and> crashed w' = crashed w1 \<and> evals w' = evals w1 \<and> (r = Blocked \<longleftrightarrow> r1 = Blocked)"
proof (cases r1)
  case (Returned u)
  with assms show ?thesis by (auto simp: callWithPanicProtection_def)
next
  case (Panicked t)
  with assms have "recovered t w1 = (r, w')"
    by (simp add: callWithPanicProtection_def)
  from recovered_frame[OF this] Panicked show ?thesis by simp
next
  case Blocked
  with assms show ?thesis by (auto simp: callWithPanicProtection_def)
qed

lemma apply_callback_frame:
  assumes "apply_callback h f procObj en w = (r, w')"
  shows "heap w' = heap w \<and> tasks w' = tasks w
     \<and> calls w' = calls w @ [(f, InternalMakeList procObj, en)] \<and> clock w' = clock w
     \<and> crashed w' = crashed w \<and> evals w' = evals w \<and> r \<noteq> Blocked"
  using assms
  by (auto simp: apply_callback_def Let_def LogPrintf_def split: outcome.splits sum.splits)


lemma chan_ok_send: "chan_ok ch \<Longrightarrow> send ch v = Some ch' \<Longrightarrow> chan_ok ch'"
  by (auto simp: chan_ok_def send_def split: if_splits)

lemma chan_ok_recv: "chan_ok ch \<Longrightarrow> recv ch = Some (v, ch') \<Longrightarrow> chan_ok ch'"
  by (auto simp: chan_ok_def recv_def split: list.splits)

lemma entry_ok_timer:
  "entry_ok i t proc cl \<Longrightarrow> (ScheduleTimer proc' = None \<longleftrightarrow> ScheduleTimer proc = None)
   \<Longrightarrow> entry_ok i t proc' cl"
  by (cases t) (simp_all add: entry_ok_def)

lemma wf_store:
  assumes wf: "wf_world w" and p: "p < length (heap w)"
    and h: "heap w' = (heap w)[p := proc']" and t: "tasks w' = tasks w" and c: "calls w' = calls w"
    and ok: "proc_ok proc'"
    and tm: "ScheduleTimer proc' = None \<longleftrightarrow> ScheduleTimer (heap w ! p) = None"
  shows "wf_world w'"
  unfolding wf_world_def
proof (intro conjI allI impI)
  show "length (tasks w') = length (heap w')"
    using wf h t by (simp add: wf_world_def)
next
  fix i assume "length (heap w') \<le> i"
  then show "invoked i w' = []" using wf h c by (simp add: wf_world_def invoked_def)
next
  fix i assume "i < length (heap w')"
  then have i: "i < length (heap w)" using h by simp
  with wf have a: "proc_ok (heap w ! i)" "entry_ok i (tasks w ! i) (heap w ! i) (invoked i w)"
    by (simp_all add: wf_world_def)
  have inv: "invoked i w' = invoked i w" using c by (simp add: invoked_def)
  show "proc_ok (heap w' ! i)"
    using a(1) ok i h by (cases "i = p") simp_all
  show "entry_ok i (tasks w' ! i) (heap w' ! i) (invoked i w')"
  proof (cases "i = p")
    case True
    then show ?thesis using a(2) entry_ok_timer[OF _ tm] h t inv i by simp
  next
    case False
    then show ?thesis using a(2) h t inv by simp
  qed
qed


lemma deref_Some:
  "deref w a = Some (p, proc) \<longleftrightarrow> a = Some p \<and> p < length (heap w) \<and> proc = heap w ! p"
  by (auto simp: deref_def split: option.splits)

lemma is_process:
  "\<not> (\<not> ObjectP v \<or> ObjectType v \<noteq> ''Process'') \<longleftrightarrow> (\<exists>p. v = Object ''Process'' p)"
  by (cases v) (auto simp: ObjectP_def)

lemma WakeImpl_effect:
  assumes "WakeImpl h args en w = (r, w')"
  shows "tasks w' = tasks w \<and> calls w' = calls w \<and> clock w' = clock w \<and> crashed w' = crashed w
     \<and> (heap w' = heap w
        \<or> (\<exists>p ch. Eval h (Car args) en = Inr (Object ''Process'' p) \<and> p < length (heap w)
              \<and> send (Wake (heap w ! p)) True = Some ch
              \<and> heap w' = (heap w)[p := (heap w ! p)\<lparr>Wake := ch\<rparr>]))"
proof (cases "Eval h (Car args) en")
  case (Inl e)
  with assms show ?thesis by (auto simp: WakeImpl_def eval_def)
next
  case (Inr v)
  show ?thesis
  proof (cases "\<exists>p. v = Object ''Process'' p")
    case False
    then have "\<not> ObjectP v \<or> ObjectType v \<noteq> ''Process''" using is_process by blast
    with assms Inr show ?thesis by (auto simp: WakeImpl_def eval_def)
  next
    case True
    then obtain p where v: "v = Object ''Process'' p" by blast
    with assms Inr show ?thesis
      by (auto simp: WakeImpl_def eval_def ObjectP_def deref_def store_def
          split: option.splits if_splits)
  qed
qed


lemma AbandonImpl_effect:
  assumes "AbandonImpl h args en w = (r, w')"
  shows "tasks w' = tasks w \<and> calls w' = calls w \<and> clock w' = clock w \<and> crashed w' = crashed w
     \<and> (heap w' = heap w
        \<or> (\<exists>p ch. Eval h (Car args) en = Inr (Object ''Process'' p) \<and> p < length (heap w)
              \<and> send (Abort (heap w ! p)) True = Some ch
              \<and> heap w' = (heap w)[p := (heap w ! p)\<lparr>Abort := ch\<rparr>]))"
proof (cases "Eval h (Car args) en")
  case (Inl e)
  with assms show ?thesis by (auto simp: AbandonImpl_def eval_def)
next
  case (Inr v)
  show ?thesis
  proof (cases "\<exists>p. v = Object ''Process'' p")
    case False
    then have "\<not> ObjectP v \<or> ObjectType v \<noteq> ''Process''" using is_process by blast
    with assms Inr show ?thesis by (auto simp: AbandonImpl_def eval_def)
  next
    case True
    then obtain p where v: "v = Object ''Process'' p" by blast
    with assms Inr show ?thesis
      by (auto simp: AbandonImpl_def eval_def ObjectP_def deref_def store_def
          split: option.splits if_splits)
  qed
qed

lemma ResetTimeoutImpl_effect:
  assumes "ResetTimeoutImpl h args en w = (r, w')"
  shows "tasks w' = tasks w \<and> calls w' = calls w \<and> clock w' = clock w \<and> crashed w' = crashed w
     \<and> (heap w' = heap w
        \<or> (\<exists>p ch. Eval h (Car args) en = Inr (Object ''Process'' p) \<and> p < length (heap w)
              \<and> send (Restart (heap w ! p)) True = Some ch
              \<and> heap w' = (heap w)[p := (heap w ! p)\<lparr>Restart := ch\<rparr>]))"
proof (cases "Eval h (Car args) en")
  case (Inl e)
  with assms show ?thesis by (auto simp: ResetTimeoutImpl_def eval_def)
next
  case (Inr v)
  show ?thesis
  proof (cases "\<exists>p. v = Object ''Process'' p")
    case False
    then have "\<not> ObjectP v \<or> ObjectType v \<noteq> ''Process''" using is_process by blast
    with assms Inr show ?thesis by (auto simp: ResetTimeoutImpl_def eval_def)
  next
    case True
    then obtain p where v: "v = Object ''Process'' p" by blast
    with assms Inr show ?thesis
      by (auto simp: ResetTimeoutImpl_def eval_def ObjectP_def deref_def store_def
          split: option.splits if_splits)
  qed
qed

lemma sleep_select_effect:
  assumes "sleep_select cs a tm w = (r, w')"
  shows "tasks w' = tasks w \<and> calls w' = calls w \<and> clock w' = clock w \<and> crashed w' = crashed w
     \<and> evals w' = evals w
     \<and> (heap w' = heap w
        \<or> (\<exists>p v ch. a = Some p \<and> p < length (heap w) \<and> recv (Wake (heap w ! p)) = Some (v, ch)
              \<and> heap w' = (heap w)[p := (heap w ! p)\<lparr>Wake := ch\<rparr>]))"
proof (cases "deref w a")
  case None
  with assms show ?thesis by (simp add: sleep_select_def)
next
  case (Some pp)
  then obtain p where d: "deref w a = Some (p, heap w ! p)" and a: "a = Some p" "p < length (heap w)"
    by (cases pp) (auto simp: deref_Some)
  show ?thesis
  proof (cases cs)
    case OnWake
    show ?thesis
    proof (cases "recv (Wake (heap w ! p))")
      case None
      with assms d OnWake show ?thesis by (simp add: sleep_select_def)
    next
      case (Some vc)
      then obtain v ch where "recv (Wake (heap w ! p)) = Some (v, ch)" by (cases vc) auto
      with assms d OnWake a show ?thesis
        by (auto simp: sleep_select_def store_def)
    qed
  next
    case OnAfter
    with assms d show ?thesis
      by (auto simp: sleep_select_def split: option.splits)
  qed
qed

lemma ProcSleepImpl_effect:
  assumes "ProcSleepImpl h cs args en w = (r, w')"
  shows "tasks w' = tasks w \<and> calls w' = calls w \<and> clock w' = clock w \<and> crashed w' = crashed w
     \<and> (heap w' = heap w
        \<or> (\<exists>p v ch. p < length (heap w) \<and> recv (Wake (heap w ! p)) = Some (v, ch)
              \<and> heap w' = (heap w)[p := (heap w ! p)\<lparr>Wake := ch\<rparr>]))"
proof (cases "Eval h (Car args) en")
  case (Inl e)
  with assms show ?thesis by (auto simp: ProcSleepImpl_def eval_def)
next
  case (Inr v)
  show ?thesis
  proof (cases "\<not> ObjectP v \<or> ObjectType v \<noteq> ''Process''")
    case True
    with assms Inr show ?thesis by (auto simp: ProcSleepImpl_def eval_def)
  next
    case False
    show ?thesis
    proof (cases "Eval h (Cadr args) en")
      case (Inl e)
      with assms Inr False show ?thesis by (auto simp: ProcSleepImpl_def eval_def)
    next
      case m: (Inr millis)
      show ?thesis
      proof (cases "\<exists>n. millis = Integer n")
        case True
        then obtain n where "millis = Integer n" by blast
        with assms Inr False m
        have "sleep_select cs (ObjectValue v) (NewTimer (clock w) (Duration n))
                (w\<lparr>evals := evals w @ [(Car args, en), (Cadr args, en)]\<rparr>) = (r, w')"
          by (simp add: ProcSleepImpl_def eval_def)
        from sleep_select_effect[OF this] show ?thesis by auto
      next
        case F: False
        with assms Inr False m show ?thesis
          by (cases millis) (auto simp: ProcSleepImpl_def eval_def)
      qed
    qed
  qed
qed

lemma ForkImpl_effect:
  assumes "ForkImpl h args en w = (r, w')"
  shows "calls w' = calls w \<and> clock w' = clock w \<and> crashed w' = crashed w
     \<and> (heap w' = heap w \<and> tasks w' = tasks w
        \<or> (\<exists>f. heap w' = heap w @ [\<lparr>Env = en, Code = f, Wake = make_chan 1, Abort = make_chan 1,
                                   Restart = make_chan 1, ScheduleTimer = None\<rparr>]
              \<and> tasks w' = tasks w @ [ForkTask f (Object ''Process'' (length (heap w))) en False]
              \<and> r = Returned (Inr (Object ''Process'' (length (heap w))))))"
proof (cases "Eval h (Car args) en")
  case (Inl e)
  with assms show ?thesis by (auto simp: ForkImpl_def eval_def)
next
  case (Inr f)
  with assms show ?thesis
    by (cases f) (auto simp: ForkImpl_def eval_def Let_def ObjectWithTypeAndValue_def split: if_splits)
qed

lemma ScheduleImpl_effect:
  assumes "ScheduleImpl h args en w = (r, w')"
  shows "calls w' = calls w \<and> clock w' = clock w \<and> crashed w' = crashed w
     \<and> (heap w' = heap w \<and> tasks w' = tasks w
        \<or> (\<exists>f n. heap w' = heap w @ [\<lparr>Env = en, Code = f, Wake = make_chan 1, Abort = make_chan 1,
                                   Restart = make_chan 1,
                                   ScheduleTimer = Some (NewTimer (clock w) (Duration n))\<rparr>]
              \<and> tasks w' = tasks w @ [ScheduleTask (length (heap w)) n f
                                        (Object ''Process'' (length (heap w))) en Armed]
              \<and> Eval h (Car args) en = Inr (Integer n) \<and> Eval h (Cadr args) en = Inr f
              \<and> r = Returned (Inr (Object ''Process'' (length (heap w))))))"
proof (cases "Eval h (Car args) en")
  case (Inl e)
  with assms show ?thesis by (auto simp: ScheduleImpl_def eval_def)
next
  case (Inr millis)
  show ?thesis
  proof (cases "\<exists>n. millis = Integer n")
    case False
    with assms Inr show ?thesis by (cases millis) (auto simp: ScheduleImpl_def eval_def)
  next
    case True
    then obtain n where n: "millis = Integer n" by blast
    show ?thesis
    proof (cases "Eval h (Cadr args) en")
      case (Inl e)
      with assms Inr n show ?thesis by (auto simp: ScheduleImpl_def eval_def)
    next
      case f: (Inr f)
      with assms Inr n show ?thesis
        by (cases f)
           (auto simp: ScheduleImpl_def eval_def Let_def ObjectWithTypeAndValue_def split: if_splits)
    qed
  qed
qed


lemma loop_iteration_cases [consumes 2, case_names fault ctl_abort ctl_restart ctl_fire]:
  assumes "loop_iteration h i cs p n f po en w = (r, w1)" and "r \<noteq> Blocked"
  obtains
    (fault) "heap w1 = heap w" "tasks w1 = tasks w" "calls w1 = calls w" "clock w1 = clock w"
      "crashed w1 = crashed w"
      "p < length (heap w) \<longrightarrow> ScheduleTimer (heap w ! p) = None"
  | (ctl_abort) tm v ch where "cs = OnAbort" "p < length (heap w)"
      "ScheduleTimer (heap w ! p) = Some tm" "recv (Abort (heap w ! p)) = Some (v, ch)"
      "heap w1 = (heap w)[p := (heap w ! p)\<lparr>Abort := ch\<rparr>]"
      "tasks w1 = (tasks w)[i := ScheduleTask p n f po en Aborted]" "calls w1 = calls w"
      "clock w1 = clock w" "crashed w1 = crashed w"
  | (ctl_restart) tm v ch where "cs = OnRestart" "p < length (heap w)"
      "ScheduleTimer (heap w ! p) = Some tm" "recv (Restart (heap w ! p)) = Some (v, ch)"
      "heap w1 = (heap w)[p := (heap w ! p)\<lparr>Restart := ch,
           ScheduleTimer := Some (Reset (clock w) (Duration n) tm)\<rparr>]"
      "tasks w1 = tasks w" "calls w1 = calls w" "clock w1 = clock w" "crashed w1 = crashed w"
  | (ctl_fire) tm t c where "cs = OnTimer" "p < length (heap w)"
      "ScheduleTimer (heap w ! p) = Some tm" "recv (C (expire (clock w) tm)) = Some (t, c)"
      "heap w1 = (heap w)[p := (heap w ! p)\<lparr>ScheduleTimer :=
           Some ((expire (clock w) tm)\<lparr>C := c\<rparr>)\<rparr>]"
      "tasks w1 = (tasks w)[i := ScheduleTask p n f po en Fired]"
      "calls w1 = calls w @ [(f, InternalMakeList po, en)]" "clock w1 = clock w"
      "crashed w1 = crashed w"
proof (cases "p < length (heap w)")
  case False
  with assms have "w1 = w" by (simp add: loop_iteration_def deref_def)
  with False fault show ?thesis by simp
next
  case p: True
  then have d: "deref w (Some p) = Some (p, heap w ! p)" by (simp add: deref_def)
  show ?thesis
  proof (cases "ScheduleTimer (heap w ! p)")
    case None
    with assms d have "w1 = w" by (simp add: loop_iteration_def)
    with None fault show ?thesis by simp
  next
    case (Some tm)
    show ?thesis
    proof (cases cs)
      case OnAbort
      with assms d Some obtain v ch where rc: "recv (Abort (heap w ! p)) = Some (v, ch)"
        by (cases "recv (Abort (heap w ! p))") (auto simp: loop_iteration_def)
      with assms d Some OnAbort
      have "w1 = set_task i (ScheduleTask p n f po en Aborted) (store p ((heap w ! p)\<lparr>Abort := ch\<rparr>) w)"
        by (simp add: loop_iteration_def)
      then show ?thesis
        using ctl_abort[OF OnAbort p Some rc] by (simp add: set_task_def store_def)
    next
      case OnRestart
      with assms d Some obtain v ch where rc: "recv (Restart (heap w ! p)) = Some (v, ch)"
        by (cases "recv (Restart (heap w ! p))") (auto simp: loop_iteration_def)
      with assms d Some OnRestart
      have "w1 = store p ((heap w ! p)\<lparr>Restart := ch,
           ScheduleTimer := Some (Reset (clock w) (Duration n) tm)\<rparr>) w"
        by (simp add: loop_iteration_def)
      then show ?thesis
        using ctl_restart[OF OnRestart p Some rc] by (simp add: store_def)
    next
      case OnTimer
      with assms d Some obtain t c where rc: "recv (C (expire (clock w) tm)) = Some (t, c)"
        by (cases "recv (C (expire (clock w) tm))") (auto simp: loop_iteration_def)
      with assms d Some OnTimer
      have "apply_callback h f po en
              (set_task i (ScheduleTask p n f po en Fired)
                 (store p ((heap w ! p)\<lparr>ScheduleTimer :=
                    Some ((expire (clock w) tm)\<lparr>C := c\<rparr>)\<rparr>) w)) = (r, w1)"
        by (simp add: loop_iteration_def)
      from apply_callback_frame[OF this] show ?thesis
        using ctl_fire[OF OnTimer p Some rc] by (simp add: set_task_def store_def)
    qed
  qed
qed

lemma finish_Some:
  "finish (r, w1) = Some w' \<Longrightarrow>
     r \<noteq> Blocked \<and> heap w' = heap w1 \<and> tasks w' = tasks w1 \<and> calls w' = calls w1
     \<and> clock w' = clock w1 \<and> (crashed w1 \<longrightarrow> crashed w')"
  by (auto simp: finish_def split: run.splits)

lemma run_task_cases [consumes 1, case_names fault fork_run ctl_abort ctl_restart ctl_fire]:
  assumes "run_task h i cs w = Some w'"
  obtains
    (fault) p n f po en where "heap w' = heap w" "tasks w' = tasks w" "calls w' = calls w"
      "clock w' = clock w" "i < length (tasks w)" "tasks w ! i = ScheduleTask p n f po en Armed"
      "p < length (heap w) \<longrightarrow> ScheduleTimer (heap w ! p) = None"
  | (fork_run) f po en where "i < length (tasks w)" "tasks w ! i = ForkTask f po en False"
      "heap w' = heap w" "tasks w' = (tasks w)[i := ForkTask f po en True]"
      "calls w' = calls w @ [(f, InternalMakeList po, en)]" "clock w' = clock w"
  | (ctl_abort) p n f po en tm v ch where "cs = OnAbort" "i < length (tasks w)"
      "tasks w ! i = ScheduleTask p n f po en Armed" "p < length (heap w)"
      "ScheduleTimer (heap w ! p) = Some tm" "recv (Abort (heap w ! p)) = Some (v, ch)"
      "heap w' = (heap w)[p := (heap w ! p)\<lparr>Abort := ch\<rparr>]"
      "tasks w' = (tasks w)[i := ScheduleTask p n f po en Aborted]" "calls w' = calls w"
      "clock w' = clock w"
  | (ctl_restart) p n f po en tm v ch where "cs = OnRestart" "i < length (tasks w)"
      "tasks w ! i = ScheduleTask p n f po en Armed" "p < length (heap w)"
      "ScheduleTimer (heap w ! p) = Some tm" "recv (Restart (heap w ! p)) = Some (v, ch)"
      "heap w' = (heap w)[p := (heap w ! p)\<lparr>Restart := ch,
           ScheduleTimer := Some (Reset (clock w) (Duration n) tm)\<rparr>]"
      "tasks w' = tasks w" "calls w' = calls w" "clock w' = clock w"
  | (ctl_fire) p n f po en tm t c where "cs = OnTimer" "i < length (tasks w)"
      "tasks w ! i = ScheduleTask p n f po en Armed" "p < length (heap w)"
      "ScheduleTimer (heap w ! p) = Some tm" "recv (C (expire (clock w) tm)) = Some (t, c)"
      "heap w' = (heap w)[p := (heap w ! p)\<lparr>ScheduleTimer :=
           Some ((expire (clock w) tm)\<lparr>C := c\<rparr>)\<rparr>]"
      "tasks w' = (tasks w)[i := ScheduleTask p n f po en Fired]"
      "calls w' = calls w @ [(f, InternalMakeList po, en)]" "clock w' = clock w"
proof -
  from assms have i: "i < length (tasks w)"
    by (simp add: run_task_def split: if_splits)
  show ?thesis
  proof (cases "tasks w ! i")
    case (ForkTask f po en started)
    with assms i have ns: "\<not> started"
      and fin: "finish (callWithPanicProtection (apply_callback h f po en) ''fork''
                  (set_task i (ForkTask f po en True) w)) = Some w'"
      by (auto simp: run_task_def split: if_splits)
    obtain r w2 where pr: "callWithPanicProtection (apply_callback h f po en) ''fork''
                  (set_task i (ForkTask f po en True) w) = (r, w2)" by fastforce
    obtain r1 w1 where ap: "apply_callback h f po en (set_task i (ForkTask f po en True) w) = (r1, w1)"
      by fastforce
    from finish_Some[OF fin[unfolded pr]] protect_frame[OF pr ap] apply_callback_frame[OF ap]
    have "heap w' = heap w" "tasks w' = (tasks w)[i := ForkTask f po en True]"
      "calls w' = calls w @ [(f, InternalMakeList po, en)]" "clock w' = clock w"
      by (simp_all add: set_task_def)
    with fork_run i ForkTask ns show ?thesis by simp
  next
    case (ScheduleTask p n f po en st)
    with assms i have st: "st = Armed"
      and fin: "finish (callWithPanicProtection (loop_iteration h i cs p n f po en) ''schedule'' w)
                  = Some w'"
      by (auto simp: run_task_def split: if_splits)
    obtain r w2 where pr: "callWithPanicProtection (loop_iteration h i cs p n f po en) ''schedule'' w
                  = (r, w2)" by fastforce
    obtain r1 w1 where li: "loop_iteration h i cs p n f po en w = (r1, w1)" by fastforce
    from finish_Some[OF fin[unfolded pr]] protect_frame[OF pr li]
    have fr: "r1 \<noteq> Blocked" "heap w' = heap w1" "tasks w' = tasks w1" "calls w' = calls w1"
      "clock w' = clock w1"
      by simp_all
    from li fr(1) show ?thesis
    proof (cases rule: loop_iteration_cases)
      case fault
      with fr show ?thesis using that(1)[of p n f po en] i ScheduleTask st by simp
    next
      case (ctl_abort tm v ch)
      with fr show ?thesis using that(3)[of p n f po en tm v ch] i ScheduleTask st by simp
    next
      case (ctl_restart tm v ch)
      with fr show ?thesis using that(4)[of p n f po en tm v ch] i ScheduleTask st by simp
    next
      case (ctl_fire tm t c)
      with fr show ?thesis using that(5)[of p n f po en tm t c] i ScheduleTask st by simp
    qed
  qed
qed


lemma primitive_cases [consumes 1, case_names fork sleep wake schedule reset abandon]:
  assumes "map_of (RegisterConcurrencyPrimitives h cs) name = Some (arity, impl)"
  obtains
      (fork) "name = ''fork''" "impl = ForkImpl h"
    | (sleep) "name = ''proc-sleep''" "impl = ProcSleepImpl h cs"
    | (wake) "name = ''wake''" "impl = WakeImpl h"
    | (schedule) "name = ''schedule''" "impl = ScheduleImpl h"
    | (reset) "name = ''reset-timeout''" "impl = ResetTimeoutImpl h"
    | (abandon) "name = ''abandon''" "impl = AbandonImpl h"
  using map_of_SomeD[OF assms] unfolding RegisterConcurrencyPrimitives_def
  by (elim set_ConsD[elim_format] disjE) simp_all

lemma step_cases [consumes 1, case_names same spawn_fork spawn_schedule wake abandon reset woken
    fork_run ctl_abort ctl_restart ctl_fire]:
  assumes "step h ev w = Some w'"
  obtains
    (same) "heap w' = heap w" "tasks w' = tasks w" "calls w' = calls w"
  | (spawn_fork) f en where
      "heap w' = heap w @ [\<lparr>Env = en, Code = f, Wake = make_chan 1, Abort = make_chan 1,
                             Restart = make_chan 1, ScheduleTimer = None\<rparr>]"
      "tasks w' = tasks w @ [ForkTask f (Object ''Process'' (length (heap w))) en False]"
      "calls w' = calls w"
  | (spawn_schedule) f en n where
      "heap w' = heap w @ [\<lparr>Env = en, Code = f, Wake = make_chan 1, Abort = make_chan 1,
                             Restart = make_chan 1,
                             ScheduleTimer = Some (NewTimer (clock w) (Duration n))\<rparr>]"
      "tasks w' = tasks w @ [ScheduleTask (length (heap w)) n f
                               (Object ''Process'' (length (heap w))) en Armed]"
      "calls w' = calls w"
  | (wake) p ch where "p < length (heap w)" "send (Wake (heap w ! p)) True = Some ch"
      "heap w' = (heap w)[p := (heap w ! p)\<lparr>Wake := ch\<rparr>]"
      "tasks w' = tasks w" "calls w' = calls w"
  | (abandon) cs args en p ch where "ev = Call ''abandon'' cs args en"
      "Eval h (Car args) en = Inr (Object ''Process'' p)"
      "p < length (heap w)" "send (Abort (heap w ! p)) True = Some ch"
      "heap w' = (heap w)[p := (heap w ! p)\<lparr>Abort := ch\<rparr>]"
      "tasks w' = tasks w" "calls w' = calls w"
  | (reset) cs args en p ch where "ev = Call ''reset-timeout'' cs args en"
      "Eval h (Car args) en = Inr (Object ''Process'' p)"
      "p < length (heap w)" "send (Restart (heap w ! p)) True = Some ch"
      "heap w' = (heap w)[p := (heap w ! p)\<lparr>Restart := ch\<rparr>]"
      "tasks w' = tasks w" "calls w' = calls w"
  | (woken) p v ch where "p < length (heap w)" "recv (Wake (heap w ! p)) = Some (v, ch)"
      "heap w' = (heap w)[p := (heap w ! p)\<lparr>Wake := ch\<rparr>]"
      "tasks w' = tasks w" "calls w' = calls w"
  | (fork_run) i f po en where "i < length (tasks w)" "tasks w ! i = ForkTask f po en False"
      "heap w' = heap w" "tasks w' = (tasks w)[i := ForkTask f po en True]"
      "calls w' = calls w @ [(f, InternalMakeList po, en)]"
  | (ctl_abort) i p n f po en tm v ch where "ev = Task i OnAbort" "i < length (tasks w)"
      "tasks w ! i = ScheduleTask p n f po en Armed" "p < length (heap w)"
      "ScheduleTimer (heap w ! p) = Some tm" "recv (Abort (heap w ! p)) = Some (v, ch)"
      "heap w' = (heap w)[p := (heap w ! p)\<lparr>Abort := ch\<rparr>]"
      "tasks w' = (tasks w)[i := ScheduleTask p n f po en Aborted]" "calls w' = calls w"
  | (ctl_restart) i p n f po en tm v ch where "ev = Task i OnRestart" "i < length (tasks w)"
      "tasks w ! i = ScheduleTask p n f po en Armed" "p < length (heap w)"
      "ScheduleTimer (heap w ! p) = Some tm" "recv (Restart (heap w ! p)) = Some (v, ch)"
      "heap w' = (heap w)[p := (heap w ! p)\<lparr>Restart := ch,
           ScheduleTimer := Some (Reset (clock w) (Duration n) tm)\<rparr>]"
      "tasks w' = tasks w" "calls w' = calls w"
  | (ctl_fire) i p n f po en tm t c where "ev = Task i OnTimer" "i < length (tasks w)"
      "tasks w ! i = ScheduleTask p n f po en Armed" "p < length (heap w)"
      "ScheduleTimer (heap w ! p) = Some tm" "recv (C (expire (clock w) tm)) = Some (t, c)"
      "heap w' = (heap w)[p := (heap w ! p)\<lparr>ScheduleTimer :=
           Some ((expire (clock w) tm)\<lparr>C := c\<rparr>)\<rparr>]"
      "tasks w' = (tasks w)[i := ScheduleTask p n f po en Fired]"
      "calls w' = calls w @ [(f, InternalMakeList po, en)]"
proof (cases ev)
  case (Tick n)
  with assms have "w' = w\<lparr>clock := clock w + int n\<rparr>"
    by (simp add: step_def split: if_splits)
  then show ?thesis using same by simp
next
  case (Task i cs)
  with assms have rt: "run_task h i cs w = Some w'"
    by (simp add: step_def split: if_splits)
  then show ?thesis
  proof (cases rule: run_task_cases)
    case (fault p n f po en)
    then show ?thesis using same by simp
  next
    case (fork_run f po en)
    then show ?thesis using that(8)[of i f po en] by simp
  next
    case (ctl_abort p n f po en tm v ch)
    then show ?thesis using that(9)[of i p n f po en tm v ch] Task by simp
  next
    case (ctl_restart p n f po en tm v ch)
    then show ?thesis using that(10)[of i p n f po en tm v ch] Task by simp
  next
    case (ctl_fire p n f po en tm t c)
    then show ?thesis using that(11)[of i p n f po en tm t c] Task by simp
  qed
next
  case (Call name cs args en)
  with assms obtain arity impl r where
    look: "map_of (RegisterConcurrencyPrimitives h cs) name = Some (arity, impl)"
    and im: "impl args en w = (Returned r, w')"
    by (auto simp: step_def split: if_splits option.splits prod.splits run.splits)
  from look show ?thesis
  proof (cases rule: primitive_cases)
    case fork
    with im ForkImpl_effect[of h args en w "Returned r" w'] show ?thesis
      using same that(2) by auto
  next
    case sleep
    with im ProcSleepImpl_effect[of h cs args en w "Returned r" w'] show ?thesis
      using same that(7) by auto
  next
    case wake
    with im WakeImpl_effect[of h args en w "Returned r" w'] show ?thesis
      using same that(4) by auto
  next
    case schedule
    with im ScheduleImpl_effect[of h args en w "Returned r" w'] show ?thesis
      using same that(3) by auto
  next
    case reset
    with im ResetTimeoutImpl_effect[of h args en w "Returned r" w'] show ?thesis
      using same that(6)[of cs args en] Call by auto
  next
    case abandon
    with im AbandonImpl_effect[of h args en w "Returned r" w'] show ?thesis
      using same that(5)[of cs args en] Call by auto
  qed
next
  case (Resume cs p tm)
  with assms obtain r where "sleep_select cs (Some p) tm w = (Returned r, w')"
    by (auto simp: step_def split: if_splits prod.splits run.splits)
  from sleep_select_effect[OF this] show ?thesis
    using same that(7) by auto
qed


lemma wf_update:
  assumes wf: "wf_world w" and i: "i < length (heap w)"
    and h: "heap w' = (heap w)[i := proc']" and t: "tasks w' = (tasks w)[i := t']"
    and c: "calls w' = calls w @ cl"
    and cl: "\<forall>c\<in>set cl. fst (snd c) = InternalMakeList (ObjectWithTypeAndValue ''Process'' i)"
    and ok: "proc_ok proc'" and en: "entry_ok i t' proc' (invoked i w @ cl)"
  shows "wf_world w'"
  unfolding wf_world_def
proof (intro conjI allI impI)
  show "length (tasks w') = length (heap w')"
    using wf h t by (simp add: wf_world_def)
next
  fix j assume "length (heap w') \<le> j"
  then have "length (heap w) \<le> j" "j \<noteq> i" using h i by simp_all
  then show "invoked j w' = []"
    using wf c cl
    by (auto simp: wf_world_def invoked_def InternalMakeList_def ObjectWithTypeAndValue_def)
next
  fix j assume "j < length (heap w')"
  then have j: "j < length (heap w)" using h by simp
  with wf have a: "proc_ok (heap w ! j)" "entry_ok j (tasks w ! j) (heap w ! j) (invoked j w)"
    and len: "length (tasks w) = length (heap w)"
    by (simp_all add: wf_world_def)
  show "proc_ok (heap w' ! j)"
    using a(1) ok j h by (cases "j = i") simp_all
  show "entry_ok j (tasks w' ! j) (heap w' ! j) (invoked j w')"
  proof (cases "j = i")
    case True
    have "invoked i w' = invoked i w @ cl"
      using c cl by (simp add: invoked_def)
    then show ?thesis using True en h t j len by simp
  next
    case False
    have "invoked j w' = invoked j w"
      using c cl False by (auto simp: invoked_def InternalMakeList_def ObjectWithTypeAndValue_def)
    then show ?thesis using False a(2) h t by simp
  qed
qed

lemma wf_append:
  assumes wf: "wf_world w"
    and h: "heap w' = heap w @ [proc']" and t: "tasks w' = tasks w @ [t']"
    and c: "calls w' = calls w"
    and ok: "proc_ok proc'" and en: "entry_ok (length (heap w)) t' proc' []"
  shows "wf_world w'"
  unfolding wf_world_def
proof (intro conjI allI impI)
  show "length (tasks w') = length (heap w')"
    using wf h t by (simp add: wf_world_def)
next
  fix j assume "length (heap w') \<le> j"
  then show "invoked j w' = []" using wf h c by (simp add: wf_world_def invoked_def)
next
  fix j assume jj: "j < length (heap w')"
  from wf have len: "length (tasks w) = length (heap w)" by (simp add: wf_world_def)
  have inv: "invoked j w' = invoked j w" using c by (simp add: invoked_def)
  show "proc_ok (heap w' ! j)"
    using wf ok jj h by (cases "j < length (heap w)") (auto simp: nth_append wf_world_def)
  show "entry_ok j (tasks w' ! j) (heap w' ! j) (invoked j w')"
  proof (cases "j < length (heap w)")
    case True
    with wf show ?thesis using h t inv len by (simp add: nth_append wf_world_def)
  next
    case False
    with jj h have "j = length (heap w)" by simp
    moreover from wf have "invoked (length (heap w)) w = []" by (simp add: wf_world_def)
    ultimately show ?thesis using en h t inv len by (simp add: nth_append)
  qed
qed

lemma chan_ok_expire: "chan_ok (C tm) \<Longrightarrow> chan_ok (C (expire clk tm))"
  by (auto simp: expire_def chan_ok_send split: option.splits)

lemma wf_step:
  assumes wf: "wf_world w" and st: "step h ev w = Some w'"
  shows "wf_world w'"
  using st
proof (cases rule: step_cases)
  case same
  then show ?thesis using wf wf_cong by blast
next
  case (spawn_fork f en)
  show ?thesis
    by (rule wf_append[OF wf spawn_fork])
       (simp_all add: proc_ok_def chan_ok_def make_chan_def entry_ok_def ObjectWithTypeAndValue_def)
next
  case (spawn_schedule f en n)
  show ?thesis
    by (rule wf_append[OF wf spawn_schedule])
       (simp_all add: proc_ok_def chan_ok_def make_chan_def entry_ok_def ObjectWithTypeAndValue_def NewTimer_def)
next
  case (wake p ch)
  from wf wake(1) have "proc_ok (heap w ! p)" by (simp add: wf_world_def)
  with wake(2) have "proc_ok ((heap w ! p)\<lparr>Wake := ch\<rparr>)"
    by (auto simp: proc_ok_def intro: chan_ok_send)
  then show ?thesis using wf_store[OF wf wake(1,3,4,5)] by simp
next
  case (abandon cs args en p ch)
  from wf abandon(3) have "proc_ok (heap w ! p)" by (simp add: wf_world_def)
  with abandon(4) have "proc_ok ((heap w ! p)\<lparr>Abort := ch\<rparr>)"
    by (auto simp: proc_ok_def intro: chan_ok_send)
  then show ?thesis using wf_store[OF wf abandon(3,5,6,7)] by simp
next
  case (reset cs args en p ch)
  from wf reset(3) have "proc_ok (heap w ! p)" by (simp add: wf_world_def)
  with reset(4) have "proc_ok ((heap w ! p)\<lparr>Restart := ch\<rparr>)"
    by (auto simp: proc_ok_def intro: chan_ok_send)
  then show ?thesis using wf_store[OF wf reset(3,5,6,7)] by simp
next
  case (woken p v ch)
  from wf woken(1) have "proc_ok (heap w ! p)" by (simp add: wf_world_def)
  with woken(2) have "proc_ok ((heap w ! p)\<lparr>Wake := ch\<rparr>)"
    by (auto simp: proc_ok_def intro: chan_ok_recv)
  then show ?thesis using wf_store[OF wf woken(1,3,4,5)] by simp
next
  case (fork_run i f po en)
  from wf have len: "length (tasks w) = length (heap w)" by (simp add: wf_world_def)
  with fork_run(1) have i: "i < length (heap w)" by simp
  with wf have ok: "proc_ok (heap w ! i)"
    and e: "entry_ok i (tasks w ! i) (heap w ! i) (invoked i w)"
    by (simp_all add: wf_world_def)
  from e fork_run(2) have po: "po = ObjectWithTypeAndValue ''Process'' i"
    and tm: "ScheduleTimer (heap w ! i) = None" and inv: "invoked i w = []"
    by (simp_all add: entry_ok_def)
  show ?thesis
  proof (rule wf_update[OF wf i _ fork_run(4,5)])
    show "heap w' = (heap w)[i := heap w ! i]" using fork_run(3) by simp
    show "proc_ok (heap w ! i)" by (rule ok)
  qed (simp_all add: po tm inv entry_ok_def)
next
  case (ctl_abort i p n f po en tm v ch)
  from wf have len: "length (tasks w) = length (heap w)" by (simp add: wf_world_def)
  with ctl_abort(2) have i: "i < length (heap w)" by simp
  with wf have ok: "proc_ok (heap w ! i)"
    and e: "entry_ok i (tasks w ! i) (heap w ! i) (invoked i w)"
    by (simp_all add: wf_world_def)
  from e ctl_abort(3) have pi: "p = i" and po: "po = ObjectWithTypeAndValue ''Process'' i"
    and inv: "invoked i w = []"
    by (simp_all add: entry_ok_def)
  from ok ctl_abort(6) pi have ok': "proc_ok ((heap w ! i)\<lparr>Abort := ch\<rparr>)"
    by (auto simp: proc_ok_def intro: chan_ok_recv)
  show ?thesis
  proof (rule wf_update[OF wf i _ ctl_abort(8)])
    show "heap w' = (heap w)[i := (heap w ! i)\<lparr>Abort := ch\<rparr>]" using ctl_abort(7) pi by simp
    show "calls w' = calls w @ []" using ctl_abort(9) by simp
    show "proc_ok ((heap w ! i)\<lparr>Abort := ch\<rparr>)" by (rule ok')
  qed (use ctl_abort(5) pi in \<open>simp_all add: po inv entry_ok_def\<close>)
next
  case (ctl_restart i p n f po en tm v ch)
  from wf have len: "length (tasks w) = length (heap w)" by (simp add: wf_world_def)
  from wf ctl_restart(4) have ok: "proc_ok (heap w ! p)" by (simp add: wf_world_def)
  then have "chan_ok (C tm)" using ctl_restart(5) by (simp add: proc_ok_def)
  then have "chan_ok (C (Reset (clock w) (Duration n) tm))"
    using chan_ok_expire[of tm "clock w"] by (simp add: Reset_def)
  moreover have "chan_ok ch" using ok ctl_restart(6) by (auto simp: proc_ok_def intro: chan_ok_recv)
  ultimately
  have "proc_ok ((heap w ! p)\<lparr>Restart := ch,
           ScheduleTimer := Some (Reset (clock w) (Duration n) tm)\<rparr>)"
    using ok by (simp add: proc_ok_def)
  then show ?thesis using wf_store[OF wf ctl_restart(4,7,8,9)] ctl_restart(5) by simp
next
  case (ctl_fire i p n f po en tm t c)
  from wf have len: "length (tasks w) = length (heap w)" by (simp add: wf_world_def)
  with ctl_fire(2) have i: "i < length (heap w)" by simp
  with wf have ok: "proc_ok (heap w ! i)"
    and e: "entry_ok i (tasks w ! i) (heap w ! i) (invoked i w)"
    by (simp_all add: wf_world_def)
  from e ctl_fire(3) have pi: "p = i" and po: "po = ObjectWithTypeAndValue ''Process'' i"
    and inv: "invoked i w = []"
    by (simp_all add: entry_ok_def)
  from ok ctl_fire(5) pi have "chan_ok (C tm)" by (simp add: proc_ok_def)
  then have "chan_ok (C (expire (clock w) tm))" by (rule chan_ok_expire)
  then have "chan_ok c" using ctl_fire(6) by (rule chan_ok_recv)
  with ok have ok': "proc_ok ((heap w ! i)\<lparr>ScheduleTimer :=
           Some ((expire (clock w) tm)\<lparr>C := c\<rparr>)\<rparr>)"
    by (simp add: proc_ok_def)
  show ?thesis
  proof (rule wf_update[OF wf i _ ctl_fire(8,9)])
    show "heap w' = (heap w)[i := (heap w ! i)\<lparr>ScheduleTimer :=
           Some ((expire (clock w) tm)\<lparr>C := c\<rparr>)\<rparr>]" using ctl_fire(7) pi by simp
    show "proc_ok ((heap w ! i)\<lparr>ScheduleTimer :=
           Some ((expire (clock w) tm)\<lparr>C := c\<rparr>)\<rparr>)" by (rule ok')
  qed (simp_all add: po pi inv entry_ok_def)
qed

lemma wf_run:
  "wf_world w \<Longrightarrow> run_events h evs w = Some w' \<Longrightarrow> wf_world w'"
proof (induction evs arbitrary: w)
  case Nil
  then show ?case by simp
next
  case (Cons ev evs)
  then show ?case by (auto split: option.splits dest: wf_step)
qed

section \<open>What steps leave alone\<close>

lemma reach_wf: "run_events h evs init = Some w \<Longrightarrow> wf_world w"
  using wf_run[OF wf_init] .

lemma step_heap_length:
  assumes "step h ev w = Some w'"
  shows "length (heap w) \<le> length (heap w')" and "length (tasks w) \<le> length (tasks w')"
  using assms by (cases rule: step_cases; simp)+

lemma sched_task_step:
  assumes st: "step h ev w = Some w'" and i: "i < length (tasks w)"
    and t: "tasks w ! i = ScheduleTask p n f po en s"
  shows "\<exists>s'. tasks w' ! i = ScheduleTask p n f po en s' \<and> (s \<noteq> Armed \<longrightarrow> s' = s)"
  using st
proof (cases rule: step_cases)
  case (fork_run j f' po' en')
  with t have "j \<noteq> i" by auto
  with fork_run t show ?thesis by simp
next
  case (ctl_abort j p' n' f' po' en' tm v ch)
  with t i show ?thesis by (cases "j = i") auto
next
  case (ctl_fire j p' n' f' po' en' tm t' c)
  with t i show ?thesis by (cases "j = i") auto
qed (use t i in \<open>simp_all add: nth_append\<close>)

lemma fork_task_step:
  assumes st: "step h ev w = Some w'" and i: "i < length (tasks w)"
    and t: "tasks w ! i = ForkTask f po en s"
  shows "\<exists>s'. tasks w' ! i = ForkTask f po en s'"
  using st
proof (cases rule: step_cases)
  case (fork_run j f' po' en')
  with t i show ?thesis by (cases "j = i") auto
next
  case (ctl_abort j p' n' f' po' en' tm v ch)
  with t have "j \<noteq> i" by auto
  with ctl_abort t show ?thesis by simp
next
  case (ctl_fire j p' n' f' po' en' tm t' c)
  with t have "j \<noteq> i" by auto
  with ctl_fire t show ?thesis by simp
qed (use t i in \<open>simp_all add: nth_append\<close>)

lemma unarmed_step:
  assumes st: "step h ev w = Some w'" and i: "i < length (tasks w)"
    and t: "\<not> armed (tasks w ! i)"
  shows "\<not> armed (tasks w' ! i)"
proof (cases "tasks w ! i")
  case (ForkTask f po en s)
  from fork_task_step[OF st i this] show ?thesis by auto
next
  case (ScheduleTask p n f po en s)
  with t have "s \<noteq> Armed" by simp
  with sched_task_step[OF st i ScheduleTask] show ?thesis by auto
qed

lemma wf_armed_ptr:
  assumes "wf_world w" and "i < length (tasks w)" and "tasks w ! i = ScheduleTask p n f po en s"
  shows "p = i"
  using assms by (auto simp: wf_world_def entry_ok_def)

lemma send_Some:
  "send ch v = Some ch' \<longleftrightarrow> length (buffer ch) < capacity ch \<and> ch' = ch\<lparr>buffer := buffer ch @ [v]\<rparr>"
  by (auto simp: send_def)

lemma wf_chans:
  assumes "wf_world w" and "p < length (heap w)"
  shows "chan_ok (Wake (heap w ! p))" "chan_ok (Abort (heap w ! p))" "chan_ok (Restart (heap w ! p))"
  using assms by (simp_all add: wf_world_def proc_ok_def)

lemma signals_step:
  assumes wf: "wf_world w" and st: "step h ev w = Some w'" and p: "p < length (heap w)"
    and t: "\<not> armed (tasks w ! p)"
  shows "(buffer (Abort (heap w' ! p)) = buffer (Abort (heap w ! p))
          \<or> abandons h p ev \<and> buffer (Abort (heap w ! p)) = []
              \<and> buffer (Abort (heap w' ! p)) = [True])
       \<and> (buffer (Restart (heap w' ! p)) = buffer (Restart (heap w ! p))
          \<or> resets h p ev \<and> buffer (Restart (heap w ! p)) = []
              \<and> buffer (Restart (heap w' ! p)) = [True])
       \<and> ScheduleTimer (heap w' ! p) = ScheduleTimer (heap w ! p)"
proof -
  from wf have len: "length (tasks w) = length (heap w)" by (simp add: wf_world_def)
  note ch = wf_chans[OF wf p]
  have other: "q \<noteq> p" if "i < length (tasks w)" "tasks w ! i = ScheduleTask q n f po en Armed"
    for i q n f po en
  proof -
    from wf_armed_ptr[OF wf that] have "q = i" .
    with that t show ?thesis by auto
  qed
  show ?thesis
    using st
  proof (cases rule: step_cases)
    case same
    then show ?thesis by simp
  next
    case (spawn_fork f en)
    with p show ?thesis by (simp add: nth_append)
  next
    case (spawn_schedule f en n)
    with p show ?thesis by (simp add: nth_append)
  next
    case (wake q c)
    with p show ?thesis by (cases "q = p") simp_all
  next
    case (abandon cs args en q c)
    show ?thesis
    proof (cases "q = p")
      case True
      with abandon ch(2) p show ?thesis by (auto simp: send_Some chan_ok_def)
    next
      case False
      with abandon p show ?thesis by simp
    qed
  next
    case (reset cs args en q c)
    show ?thesis
    proof (cases "q = p")
      case True
      with reset ch(3) p show ?thesis by (auto simp: send_Some chan_ok_def)
    next
      case False
      with reset p show ?thesis by simp
    qed
  next
    case (woken q v c)
    with p show ?thesis by (cases "q = p") simp_all
  next
    case (fork_run i f po en)
    then show ?thesis by simp
  next
    case (ctl_abort i q n f po en tm v c)
    with other[OF ctl_abort(2,3)] show ?thesis by simp
  next
    case (ctl_restart i q n f po en tm v c)
    with other[OF ctl_restart(2,3)] show ?thesis by simp
  next
    case (ctl_fire i q n f po en tm t' c)
    with other[OF ctl_fire(2,3)] show ?thesis by simp
  qed
qed

lemma exited_run:
  assumes wf: "wf_world w" and run: "run_events h evs w = Some w'" and p: "p < length (heap w)"
    and t: "\<not> armed (tasks w ! p)"
  shows "wf_world w' \<and> p < length (heap w') \<and> \<not> armed (tasks w' ! p)
       \<and> ScheduleTimer (heap w' ! p) = ScheduleTimer (heap w ! p)
       \<and> (buffer (Abort (heap w ! p)) \<noteq> [] \<or> list_all (\<lambda>ev. \<not> abandons h p ev) evs
            \<longrightarrow> buffer (Abort (heap w' ! p)) = buffer (Abort (heap w ! p)))
       \<and> (buffer (Restart (heap w ! p)) \<noteq> [] \<or> list_all (\<lambda>ev. \<not> resets h p ev) evs
            \<longrightarrow> buffer (Restart (heap w' ! p)) = buffer (Restart (heap w ! p)))
       \<and> length (buffer (Abort (heap w ! p))) \<le> length (buffer (Abort (heap w' ! p)))
       \<and> length (buffer (Restart (heap w ! p))) \<le> length (buffer (Restart (heap w' ! p)))"
  using wf run p t
proof (induction evs arbitrary: w)
  case Nil
  then show ?case by simp
next
  case (Cons ev evs)
  from Cons.prems(2) obtain w1 where st: "step h ev w = Some w1"
    and rest: "run_events h evs w1 = Some w'"
    by (auto split: option.splits)
  from Cons.prems(1) have len: "length (tasks w) = length (heap w)" by (simp add: wf_world_def)
  have wf1: "wf_world w1" using wf_step[OF Cons.prems(1) st] .
  have p1: "p < length (heap w1)" using step_heap_length(1)[OF st] Cons.prems(3) by simp
  have t1: "\<not> armed (tasks w1 ! p)"
    using unarmed_step[OF st _ Cons.prems(4)] Cons.prems(3) len by simp
  note sg = signals_step[OF Cons.prems(1) st Cons.prems(3,4)]
  note ih = Cons.IH[OF wf1 rest p1 t1]
  show ?case using sg ih by auto
qed

section \<open>Evaluation of the examples\<close>

lemmas model_defs = step_def run_task_def finish_def loop_iteration_def callWithPanicProtection_def
  apply_callback_def set_task_def store_def deref_def RegisterConcurrencyPrimitives_def
  ScheduleImpl_def ForkImpl_def WakeImpl_def AbandonImpl_def ResetTimeoutImpl_def ProcSleepImpl_def
  sleep_select_def eval_def send_def recv_def make_chan_def NewTimer_def expire_def Reset_def
  expiry_of_def Duration_def Millisecond_def ObjectWithTypeAndValue_def StringWithValue_def
  BooleanWithValue_def InternalMakeList_def ObjectP_def Cadr_def LogPrintf_def init_def Let_def

lemmas example_defs = example_host_def callback1_def callback2_def handle0_def handle0_args_def
  schedule_now_def fork_now_def scheduled_world_def fired_world_def forked_world_def
  with_wake_def with_abort_def schedule_args_def later_world_def restart_pending_def rearmed_def
  aborted_world_def sleep_args_def

lemma Duration_in_range:
  "0 \<le> sint n \<Longrightarrow> sint n * 1000000 < 2 ^ 63 \<Longrightarrow> Duration n = sint n * 1000000"
  by (simp add: Duration_def Millisecond_def sint_word_ariths signed_take_bit_int_eq_self)

section \<open>The channel primitives on a valid handle\<close>

lemma WakeImpl_valid:
  assumes "Eval h (Car args) en = Inr (Object ''Process'' p)" and "p < length (heap w)"
  shows "WakeImpl h args en w =
     (case send (Wake (heap w ! p)) True of
        None \<Rightarrow> (Blocked, w\<lparr>evals := evals w @ [(Car args, en)]\<rparr>)
      | Some ch \<Rightarrow> (Returned (Inr (StringWithValue ''OK'')),
                    store p ((heap w ! p)\<lparr>Wake := ch\<rparr>) (w\<lparr>evals := evals w @ [(Car args, en)]\<rparr>)))"
  using assms by (simp add: WakeImpl_def eval_def ObjectP_def deref_def split: option.splits)

lemma AbandonImpl_valid:
  assumes "Eval h (Car args) en = Inr (Object ''Process'' p)" and "p < length (heap w)"
  shows "AbandonImpl h args en w =
     (case send (Abort (heap w ! p)) True of
        None \<Rightarrow> (Blocked, w\<lparr>evals := evals w @ [(Car args, en)]\<rparr>)
      | Some ch \<Rightarrow> (Returned (Inr (StringWithValue ''OK'')),
                    store p ((heap w ! p)\<lparr>Abort := ch\<rparr>) (w\<lparr>evals := evals w @ [(Car args, en)]\<rparr>)))"
  using assms by (simp add: AbandonImpl_def eval_def ObjectP_def deref_def split: option.splits)

lemma ResetTimeoutImpl_valid:
  assumes "Eval h (Car args) en = Inr (Object ''Process'' p)" and "p < length (heap w)"
  shows "ResetTimeoutImpl h args en w =
     (case send (Restart (heap w ! p)) True of
        None \<Rightarrow> (Returned (Inr (StringWithValue ''task was already completed or abandoned'')),
                 w\<lparr>evals := evals w @ [(Car args, en)]\<rparr>)
      | Some ch \<Rightarrow> (Returned (Inr (StringWithValue ''OK'')),
                    store p ((heap w ! p)\<lparr>Restart := ch\<rparr>) (w\<lparr>evals := evals w @ [(Car args, en)]\<rparr>)))"
  using assms by (simp add: ResetTimeoutImpl_def eval_def ObjectP_def deref_def split: option.splits)

lemma send_one_slot:
  assumes "chan_ok ch"
  shows "send ch v = (if buffer ch = [] then Some \<lparr>capacity = 1, buffer = [v]\<rparr> else None)"
  using assms by (cases ch) (auto simp: send_def chan_ok_def)

lemma recv_one_slot:
  assumes "chan_ok ch"
  shows "recv ch = (case buffer ch of [] \<Rightarrow> None | v # vs \<Rightarrow> Some (v, \<lparr>capacity = 1, buffer = []\<rparr>))"
  using assms by (cases ch) (auto simp: recv_def chan_ok_def split: list.splits)

section \<open>A successful fork or schedule\<close>

lemma ForkImpl_success:
  assumes "ForkImpl h args en w = (Returned (Inr po), w')"
  shows "\<exists>f. Eval h (Car args) en = Inr f
     \<and> po = Object ''Process'' (length (heap w))
     \<and> heap w' = heap w @ [\<lparr>Env = en, Code = f, Wake = make_chan 1, Abort = make_chan 1,
                               Restart = make_chan 1, ScheduleTimer = None\<rparr>]
     \<and> tasks w' = tasks w @ [ForkTask f po en False]
     \<and> calls w' = calls w \<and> clock w' = clock w \<and> crashed w' = crashed w"
proof (cases "Eval h (Car args) en")
  case (Inl e)
  with assms show ?thesis by (auto simp: ForkImpl_def eval_def)
next
  case (Inr f)
  with assms show ?thesis
    by (cases f) (auto simp: ForkImpl_def eval_def Let_def ObjectWithTypeAndValue_def split: if_splits)
qed

lemma ScheduleImpl_success:
  assumes "ScheduleImpl h args en w = (Returned (Inr po), w')"
  shows "\<exists>n f. Eval h (Car args) en = Inr (Integer n) \<and> Eval h (Cadr args) en = Inr f
     \<and> po = Object ''Process'' (length (heap w))
     \<and> heap w' = heap w @ [\<lparr>Env = en, Code = f, Wake = make_chan 1, Abort = make_chan 1,
                               Restart = make_chan 1,
                               ScheduleTimer = Some (NewTimer (clock w) (Duration n))\<rparr>]
     \<and> tasks w' = tasks w @ [ScheduleTask (length (heap w)) n f po en Armed]
     \<and> calls w' = calls w \<and> clock w' = clock w \<and> crashed w' = crashed w"
proof (cases "Eval h (Car args) en")
  case (Inl e)
  with assms show ?thesis by (auto simp: ScheduleImpl_def eval_def)
next
  case (Inr millis)
  show ?thesis
  proof (cases "\<exists>n. millis = Integer n")
    case False
    with assms Inr show ?thesis by (cases millis) (auto simp: ScheduleImpl_def eval_def)
  next
    case True
    then obtain n where n: "millis = Integer n" by blast
    show ?thesis
    proof (cases "Eval h (Cadr args) en")
      case (Inl e)
      with assms Inr n show ?thesis by (auto simp: ScheduleImpl_def eval_def)
    next
      case f: (Inr f)
      with assms Inr n show ?thesis
        by (cases f)
           (auto simp: ScheduleImpl_def eval_def Let_def ObjectWithTypeAndValue_def split: if_splits)
    qed
  qed
qed

lemma wf_ForkImpl:
  assumes "wf_world w" and "ForkImpl h args en w = (r, w')"
  shows "wf_world w'"
proof -
  from ForkImpl_effect[OF assms(2)] consider
      "heap w' = heap w" "tasks w' = tasks w" "calls w' = calls w"
    | f where "heap w' = heap w @ [\<lparr>Env = en, Code = f, Wake = make_chan 1, Abort = make_chan 1,
                                   Restart = make_chan 1, ScheduleTimer = None\<rparr>]"
        "tasks w' = tasks w @ [ForkTask f (Object ''Process'' (length (heap w))) en False]"
        "calls w' = calls w"
    by auto
  then show ?thesis
  proof cases
    case 1
    then show ?thesis using assms(1) wf_cong by blast
  next
    case 2
    show ?thesis
      by (rule wf_append[OF assms(1) 2])
         (simp_all add: proc_ok_def chan_ok_def make_chan_def entry_ok_def ObjectWithTypeAndValue_def)
  qed
qed

lemma wf_ScheduleImpl:
  assumes "wf_world w" and "ScheduleImpl h args en w = (r, w')"
  shows "wf_world w'"
proof -
  from ScheduleImpl_effect[OF assms(2)] consider
      "heap w' = heap w" "tasks w' = tasks w" "calls w' = calls w"
    | f n where "heap w' = heap w @ [\<lparr>Env = en, Code = f, Wake = make_chan 1, Abort = make_chan 1,
                                   Restart = make_chan 1,
                                   ScheduleTimer = Some (NewTimer (clock w) (Duration n))\<rparr>]"
        "tasks w' = tasks w @ [ScheduleTask (length (heap w)) n f
                                 (Object ''Process'' (length (heap w))) en Armed]"
        "calls w' = calls w"
    by auto
  then show ?thesis
  proof cases
    case 1
    then show ?thesis using assms(1) wf_cong by blast
  next
    case 2
    show ?thesis
      by (rule wf_append[OF assms(1) 2])
         (simp_all add: proc_ok_def chan_ok_def make_chan_def entry_ok_def ObjectWithTypeAndValue_def
            NewTimer_def)
  qed
qed

lemma wf_AbandonImpl:
  assumes wf: "wf_world w" and a: "AbandonImpl h args en w = (r, w')"
  shows "wf_world w'"
proof -
  from AbandonImpl_effect[OF a] consider
      "heap w' = heap w" "tasks w' = tasks w" "calls w' = calls w"
    | p ch where "p < length (heap w)" "send (Abort (heap w ! p)) True = Some ch"
        "heap w' = (heap w)[p := (heap w ! p)\<lparr>Abort := ch\<rparr>]" "tasks w' = tasks w"
        "calls w' = calls w"
    by auto
  then show ?thesis
  proof cases
    case 1
    then show ?thesis using wf wf_cong by blast
  next
    case 2
    from wf 2(1) have "proc_ok (heap w ! p)" by (simp add: wf_world_def)
    with 2(2) have "proc_ok ((heap w ! p)\<lparr>Abort := ch\<rparr>)"
      by (auto simp: proc_ok_def intro: chan_ok_send)
    then show ?thesis using wf_store[OF wf 2(1,3,4,5)] by simp
  qed
qed

lemma sched_task_run:
  assumes "run_events h evs w = Some w'" and "i < length (tasks w)"
    and "tasks w ! i = ScheduleTask p n f po en s"
  shows "i < length (tasks w') \<and> (\<exists>s'. tasks w' ! i = ScheduleTask p n f po en s' \<and> (s \<noteq> Armed \<longrightarrow> s' = s))"
  using assms
proof (induction evs arbitrary: w s)
  case Nil
  then show ?case by simp
next
  case (Cons ev evs)
  from Cons.prems(1) obtain w1 where st: "step h ev w = Some w1"
    and rest: "run_events h evs w1 = Some w'"
    by (auto split: option.splits)
  from sched_task_step[OF st Cons.prems(2,3)] obtain s1
    where s1: "tasks w1 ! i = ScheduleTask p n f po en s1" "s \<noteq> Armed \<longrightarrow> s1 = s" by blast
  have i1: "i < length (tasks w1)" using step_heap_length(2)[OF st] Cons.prems(2) by simp
  from Cons.IH[OF rest i1 s1(1)] s1(2) show ?case by auto
qed

section \<open>The turns of a controller\<close>

lemma wf_timer:
  assumes "wf_world w" and "i < length (tasks w)" and "tasks w ! i = ScheduleTask p n f po en s"
  shows "\<exists>tm. ScheduleTimer (heap w ! i) = Some tm \<and> chan_ok (C tm)"
proof -
  from assms(1,2) have i: "i < length (heap w)" by (simp add: wf_world_def)
  with assms(1) have "proc_ok (heap w ! i)" "entry_ok i (tasks w ! i) (heap w ! i) (invoked i w)"
    by (simp_all add: wf_world_def)
  with assms(3) show ?thesis by (auto simp: entry_ok_def proc_ok_def)
qed

lemma run_task_exited:
  assumes "i < length (tasks w)" and "\<not> armed (tasks w ! i)"
    and "tasks w ! i = ScheduleTask p n f po en s"
  shows "run_task h i cs w = None"
  using assms by (simp add: run_task_def)

lemma run_task_abort:
  assumes wf: "wf_world w" and i: "i < length (tasks w)"
    and t: "tasks w ! i = ScheduleTask i n f po en Armed"
  shows "run_task h i OnAbort w =
     (if buffer (Abort (heap w ! i)) = [] then None
      else Some (set_task i (ScheduleTask i n f po en Aborted)
                   (store i ((heap w ! i)\<lparr>Abort := \<lparr>capacity = 1, buffer = []\<rparr>\<rparr>) w)))"
proof -
  from wf i have ih: "i < length (heap w)" by (simp add: wf_world_def)
  from wf_timer[OF wf i t] obtain tm where tm: "ScheduleTimer (heap w ! i) = Some tm" by blast
  note ok = wf_chans(2)[OF wf ih]
  show ?thesis
    using i t ih tm
    by (simp add: run_task_def loop_iteration_def deref_def recv_one_slot[OF ok]
        callWithPanicProtection_def finish_def split: list.splits)
qed

lemma run_task_restart:
  assumes wf: "wf_world w" and i: "i < length (tasks w)"
    and t: "tasks w ! i = ScheduleTask i n f po en Armed"
    and tm: "ScheduleTimer (heap w ! i) = Some tm"
  shows "run_task h i OnRestart w =
     (if buffer (Restart (heap w ! i)) = [] then None
      else Some (store i ((heap w ! i)\<lparr>Restart := \<lparr>capacity = 1, buffer = []\<rparr>,
                     ScheduleTimer := Some (Reset (clock w) (Duration n) tm)\<rparr>) w))"
proof -
  from wf i have ih: "i < length (heap w)" by (simp add: wf_world_def)
  note ok = wf_chans(3)[OF wf ih]
  show ?thesis
    using i t ih tm
    by (simp add: run_task_def loop_iteration_def deref_def recv_one_slot[OF ok]
        callWithPanicProtection_def finish_def split: list.splits)
qed

lemma run_task_timer_blocked:
  assumes i: "i < length (tasks w)" and ih: "i < length (heap w)"
    and t: "tasks w ! i = ScheduleTask i n f po en Armed"
    and tm: "ScheduleTimer (heap w ! i) = Some tm"
    and no: "recv (C (expire (clock w) tm)) = None"
  shows "run_task h i OnTimer w = None"
  using assms
  by (simp add: run_task_def loop_iteration_def deref_def callWithPanicProtection_def finish_def)

lemma run_task_timer_fires:
  assumes i: "i < length (tasks w)" and ih: "i < length (heap w)"
    and t: "tasks w ! i = ScheduleTask i n f po en Armed"
    and tm: "ScheduleTimer (heap w ! i) = Some tm"
    and yes: "recv (C (expire (clock w) tm)) \<noteq> None"
  shows "\<exists>w'. run_task h i OnTimer w = Some w'
     \<and> tasks w' = (tasks w)[i := ScheduleTask i n f po en Fired]
     \<and> calls w' = calls w @ [(f, InternalMakeList po, en)]"
proof -
  obtain r1 w1 where li: "loop_iteration h i OnTimer i n f po en w = (r1, w1)" by fastforce
  from yes obtain tv c where rc: "recv (C (expire (clock w) tm)) = Some (tv, c)" by auto
  from li ih tm rc have "apply_callback h f po en
              (set_task i (ScheduleTask i n f po en Fired)
                 (store i ((heap w ! i)\<lparr>ScheduleTimer :=
                    Some ((expire (clock w) tm)\<lparr>C := c\<rparr>)\<rparr>) w)) = (r1, w1)"
    by (simp add: loop_iteration_def deref_def)
  from apply_callback_frame[OF this] have nb1: "r1 \<noteq> Blocked" by simp
  obtain r w2 where pr: "callWithPanicProtection (loop_iteration h i OnTimer i n f po en)
      ''schedule'' w = (r, w2)" by fastforce
  from protect_frame[OF pr li] nb1 have nb: "r \<noteq> Blocked" by simp
  then obtain w' where fin: "finish (r, w2) = Some w'"
    by (cases r) (simp_all add: finish_def)
  with pr i t have rt: "run_task h i OnTimer w = Some w'"
    by (simp add: run_task_def)
  from rt show ?thesis
  proof (cases rule: run_task_cases)
    case (fault p' n' f' po' en')
    with t tm ih show ?thesis by simp
  next
    case (fork_run f' po' en')
    with t show ?thesis by simp
  next
    case (ctl_fire p' n' f' po' en' tm' t' c')
    with t rt show ?thesis by simp
  qed simp_all
qed

section \<open>The task of a scheduled process\<close>

lemma scheduled_task:
  assumes r0: "run_events h evs0 init = Some w0"
    and sc: "ScheduleImpl h args en w0 = (Returned (Inr po), w1)"
    and r1: "run_events h evs w1 = Some w"
  obtains n f st tm where
    "Eval h (Car args) en = Inr (Integer n)" "Eval h (Cadr args) en = Inr f"
    "po = Object ''Process'' (length (heap w0))"
    "ScheduleTimer (heap w1 ! length (heap w0)) = Some (NewTimer (clock w0) (Duration n))"
    "tasks w1 ! length (heap w0) = ScheduleTask (length (heap w0)) n f po en Armed"
    "tasks w ! length (heap w0) = ScheduleTask (length (heap w0)) n f po en st"
    "ScheduleTimer (heap w ! length (heap w0)) = Some tm"
    "length (heap w0) < length (tasks w)" "length (heap w0) < length (heap w)" "wf_world w"
proof -
  let ?i = "length (heap w0)"
  from r0 have wf0: "wf_world w0" by (rule reach_wf)
  then have len0: "length (tasks w0) = length (heap w0)" by (simp add: wf_world_def)
  from ScheduleImpl_success[OF sc] obtain n f where
    ev: "Eval h (Car args) en = Inr (Integer n)" "Eval h (Cadr args) en = Inr f"
    and po: "po = Object ''Process'' ?i"
    and h1: "heap w1 = heap w0 @ [\<lparr>Env = en, Code = f, Wake = make_chan 1, Abort = make_chan 1,
                               Restart = make_chan 1,
                               ScheduleTimer = Some (NewTimer (clock w0) (Duration n))\<rparr>]"
    and t1: "tasks w1 = tasks w0 @ [ScheduleTask ?i n f po en Armed]"
    by blast
  have wf1: "wf_world w1" using wf_ScheduleImpl[OF wf0 sc] .
  have wf: "wf_world w" using wf_run[OF wf1 r1] .
  have i1: "?i < length (tasks w1)" using t1 len0 by simp
  have ta1: "tasks w1 ! ?i = ScheduleTask ?i n f po en Armed" using t1 len0 by (simp add: nth_append)
  have tm1: "ScheduleTimer (heap w1 ! ?i) = Some (NewTimer (clock w0) (Duration n))"
    using h1 by (simp add: nth_append)
  from sched_task_run[OF r1 i1 ta1] obtain st where
    i: "?i < length (tasks w)" and ta: "tasks w ! ?i = ScheduleTask ?i n f po en st" by blast
  from wf_timer[OF wf i ta] obtain tm where tm: "ScheduleTimer (heap w ! ?i) = Some tm" by blast
  from wf i have ih: "?i < length (heap w)" by (simp add: wf_world_def)
  from that[OF ev po tm1 ta1 ta tm i ih wf] show ?thesis .
qed

section \<open>The claims about single calls\<close>

text \<open>
  C8. The wrapper catches a runtime fault of the work it runs, logs seven
  stack-frame descriptions, each prefixed with the tag the caller gave, and returns
  normally. On the code the tag is never used: with the tag \<open>fork\<close> and a panic whose
  stack text has eight lines, the wrapper returns normally and the log holds the first
  seven lines of the stack text as they are, under the format \<open>%s\<close> and a newline.
\<close>

theorem wrapper_logs_without_prefix:
  "callWithPanicProtection (\<lambda>w. (Panicked example_trace, w)) ''fork'' init
   = (Returned (),
      init\<lparr>logs := [(''%s'' @ [newline], LogS ''goroutine 5 [running]:''),
                     (''%s'' @ [newline], LogS ''main.f()''),
                     (''%s'' @ [newline], LogS ''f.go:3''),
                     (''%s'' @ [newline], LogS ''main.g()''),
                     (''%s'' @ [newline], LogS ''g.go:7''),
                     (''%s'' @ [newline], LogS ''main.h()''),
                     (''%s'' @ [newline], LogS ''h.go:9'')]\<rparr>)"
  by (simp add: callWithPanicProtection_def recovered_def log_stack.simps newline_def LogPrintf_def
      init_def example_trace_def)

text \<open>
  C5. When the function expression of \<open>fork\<close> or \<open>schedule\<close> evaluates to a value
  that is not callable, the call returns a type error; when it evaluates to a callable
  whose required-argument count is not 1, the call returns an arity error; when the
  delay of \<open>schedule\<close> does not evaluate to an integer, the call returns a type error.
  A value is callable when \<^verbatim>\<open>FunctionP\<close> accepts it.
  In each case the world after the call is the world before it with only the
  evaluations recorded: no process is allocated, no task is spawned, no callback is
  called and nothing is logged.
\<close>

theorem invalid_arguments_spawn_nothing:
  "(Eval h (Car args) en = Inr f \<and> (\<forall>fn. f \<noteq> Function fn) \<longrightarrow>
      ForkImpl h args en w =
        (Returned (Inl (ProcessError ''fork expected a function, but received %v.'' (ArgV f) en)),
         w\<lparr>evals := evals w @ [(Car args, en)]\<rparr>))
   \<and> (Eval h (Car args) en = Inr (Function fn) \<and> RequiredArgCount fn \<noteq> 1 \<longrightarrow>
      ForkImpl h args en w =
        (Returned (Inl (ProcessError ''fork expected a function with arity of 1, but it was %d.''
                          (ArgD (RequiredArgCount fn)) en)),
         w\<lparr>evals := evals w @ [(Car args, en)]\<rparr>))
   \<and> (Eval h (Car args) en = Inr millis \<and> (\<forall>n. millis \<noteq> Integer n) \<longrightarrow>
      ScheduleImpl h args en w =
        (Returned (Inl (ProcessError ''schedule expected an integer as a delay, but received %v.''
                          (ArgV millis) en)),
         w\<lparr>evals := evals w @ [(Car args, en)]\<rparr>))
   \<and> (Eval h (Car args) en = Inr (Integer n) \<and> Eval h (Cadr args) en = Inr f
        \<and> (\<forall>fn. f \<noteq> Function fn) \<longrightarrow>
      ScheduleImpl h args en w =
        (Returned (Inl (ProcessError ''schedule expected a function, but received %v.''
                          (ArgV f) en)),
         w\<lparr>evals := evals w @ [(Car args, en), (Cadr args, en)]\<rparr>))
   \<and> (Eval h (Car args) en = Inr (Integer n) \<and> Eval h (Cadr args) en = Inr (Function fn)
        \<and> RequiredArgCount fn \<noteq> 1 \<longrightarrow>
      ScheduleImpl h args en w =
        (Returned (Inl (ProcessError
                          ''schedule expected a function with arity of 1, but it was %d.''
                          (ArgD (RequiredArgCount fn)) en)),
         w\<lparr>evals := evals w @ [(Car args, en), (Cadr args, en)]\<rparr>))"
proof (intro conjI impI)
  assume "Eval h (Car args) en = Inr f \<and> (\<forall>fn. f \<noteq> Function fn)"
  then show "ForkImpl h args en w =
        (Returned (Inl (ProcessError ''fork expected a function, but received %v.'' (ArgV f) en)),
         w\<lparr>evals := evals w @ [(Car args, en)]\<rparr>)"
    by (cases f) (simp_all add: ForkImpl_def eval_def)
next
  assume "Eval h (Car args) en = Inr (Function fn) \<and> RequiredArgCount fn \<noteq> 1"
  then show "ForkImpl h args en w =
        (Returned (Inl (ProcessError ''fork expected a function with arity of 1, but it was %d.''
                          (ArgD (RequiredArgCount fn)) en)),
         w\<lparr>evals := evals w @ [(Car args, en)]\<rparr>)"
    by (simp add: ForkImpl_def eval_def)
next
  assume "Eval h (Car args) en = Inr millis \<and> (\<forall>n. millis \<noteq> Integer n)"
  then show "ScheduleImpl h args en w =
        (Returned (Inl (ProcessError ''schedule expected an integer as a delay, but received %v.''
                          (ArgV millis) en)),
         w\<lparr>evals := evals w @ [(Car args, en)]\<rparr>)"
    by (cases millis) (simp_all add: ScheduleImpl_def eval_def)
next
  assume "Eval h (Car args) en = Inr (Integer n) \<and> Eval h (Cadr args) en = Inr f
        \<and> (\<forall>fn. f \<noteq> Function fn)"
  then show "ScheduleImpl h args en w =
        (Returned (Inl (ProcessError ''schedule expected a function, but received %v.''
                          (ArgV f) en)),
         w\<lparr>evals := evals w @ [(Car args, en), (Cadr args, en)]\<rparr>)"
    by (cases f) (simp_all add: ScheduleImpl_def eval_def)
next
  assume "Eval h (Car args) en = Inr (Integer n) \<and> Eval h (Cadr args) en = Inr (Function fn)
        \<and> RequiredArgCount fn \<noteq> 1"
  then show "ScheduleImpl h args en w =
        (Returned (Inl (ProcessError
                          ''schedule expected a function with arity of 1, but it was %d.''
                          (ArgD (RequiredArgCount fn)) en)),
         w\<lparr>evals := evals w @ [(Car args, en), (Cadr args, en)]\<rparr>)"
    by (simp add: ScheduleImpl_def eval_def)
qed

theorem invalid_arguments_spawn_nothing_witness:
  "ForkImpl example_host (ConsCell (String ''f'') NilData) 0 init =
     (Returned (Inl (ProcessError ''fork expected a function, but received %v.''
                       (ArgV (String ''f'')) 0)),
      init\<lparr>evals := [(String ''f'', 0)]\<rparr>)
   \<and> ForkImpl example_host (ConsCell callback2 NilData) 0 init =
     (Returned (Inl (ProcessError ''fork expected a function with arity of 1, but it was %d.''
                       (ArgD 2) 0)),
      init\<lparr>evals := [(callback2, 0)]\<rparr>)
   \<and> ScheduleImpl example_host (ConsCell (String ''soon'') (ConsCell callback1 NilData)) 0 init =
     (Returned (Inl (ProcessError ''schedule expected an integer as a delay, but received %v.''
                       (ArgV (String ''soon'')) 0)),
      init\<lparr>evals := [(String ''soon'', 0)]\<rparr>)
   \<and> ScheduleImpl example_host (ConsCell (Integer 5) (ConsCell (String ''f'') NilData)) 0 init =
     (Returned (Inl (ProcessError ''schedule expected a function, but received %v.''
                       (ArgV (String ''f'')) 0)),
      init\<lparr>evals := [(Integer 5, 0), (String ''f'', 0)]\<rparr>)
   \<and> ScheduleImpl example_host (ConsCell (Integer 5) (ConsCell callback2 NilData)) 0 init =
     (Returned (Inl (ProcessError ''schedule expected a function with arity of 1, but it was %d.''
                       (ArgD 2) 0)),
      init\<lparr>evals := [(Integer 5, 0), (callback2, 0)]\<rparr>)"
  using invalid_arguments_spawn_nothing
          [where h = example_host and args = "ConsCell (String ''f'') NilData" and en = 0
             and f = "String ''f''" and w = init and millis = "String ''f''"
             and fn = "\<lparr>RequiredArgCount = 2, FuncId = 0\<rparr>" and n = 5]
        invalid_arguments_spawn_nothing
          [where h = example_host and args = "ConsCell callback2 NilData" and en = 0
             and f = "String ''f''" and w = init and millis = callback2
             and fn = "\<lparr>RequiredArgCount = 2, FuncId = 0\<rparr>" and n = 5]
        invalid_arguments_spawn_nothing
          [where h = example_host
             and args = "ConsCell (String ''soon'') (ConsCell callback1 NilData)" and en = 0
             and f = "String ''f''" and w = init and millis = "String ''soon''"
             and fn = "\<lparr>RequiredArgCount = 2, FuncId = 0\<rparr>" and n = 5]
        invalid_arguments_spawn_nothing
          [where h = example_host
             and args = "ConsCell (Integer 5) (ConsCell (String ''f'') NilData)" and en = 0
             and f = "String ''f''" and w = init and millis = "String ''soon''"
             and fn = "\<lparr>RequiredArgCount = 2, FuncId = 0\<rparr>" and n = 5]
        invalid_arguments_spawn_nothing
          [where h = example_host
             and args = "ConsCell (Integer 5) (ConsCell callback2 NilData)" and en = 0
             and f = "String ''f''" and w = init and millis = "String ''soon''"
             and fn = "\<lparr>RequiredArgCount = 2, FuncId = 0\<rparr>" and n = 5]
  by (simp add: example_host_def callback2_def callback1_def init_def Cadr_def)

text \<open>
  C10. \<open>proc-sleep\<close> evaluates its first argument and checks that it is a Process
  handle before it evaluates its second argument: when the evaluation of the first
  argument fails, or gives a value that is not a Process handle, the call returns that
  error or the error about the process, and the only evaluation recorded is that of
  the first argument.
\<close>

theorem proc_sleep_checks_process_first:
  "(Eval h (Car args) en = Inl err \<longrightarrow>
      ProcSleepImpl h cs args en w =
        (Returned (Inl err), w\<lparr>evals := evals w @ [(Car args, en)]\<rparr>))
   \<and> (Eval h (Car args) en = Inr v \<and> (\<not> ObjectP v \<or> ObjectType v \<noteq> ''Process'') \<longrightarrow>
      ProcSleepImpl h cs args en w =
        (Returned (Inl (ProcessError
                          ''proc-sleep expects a Process object expected but received %s.''
                          (ArgS (ObjectType v)) en)),
         w\<lparr>evals := evals w @ [(Car args, en)]\<rparr>))"
  by (simp add: ProcSleepImpl_def eval_def)

theorem proc_sleep_checks_process_first_witness:
  "ProcSleepImpl example_host OnWake (ConsCell (Symbol ''p'') (ConsCell (Symbol ''d'') NilData)) 0 init
     = (Returned (Inl (HostError ''unbound symbol'')), init\<lparr>evals := [(Symbol ''p'', 0)]\<rparr>)
   \<and> ProcSleepImpl example_host OnWake (ConsCell (Integer 1) (ConsCell (Symbol ''d'') NilData)) 0 init
     = (Returned (Inl (ProcessError
                         ''proc-sleep expects a Process object expected but received %s.''
                         (ArgS []) 0)),
        init\<lparr>evals := [(Integer 1, 0)]\<rparr>)"
  using proc_sleep_checks_process_first
          [where h = example_host and en = 0 and w = init and cs = OnWake
             and args = "ConsCell (Symbol ''p'') (ConsCell (Symbol ''d'') NilData)"
             and err = "HostError ''unbound symbol''" and v = "Integer 1"]
        proc_sleep_checks_process_first
          [where h = example_host and en = 0 and w = init and cs = OnWake
             and args = "ConsCell (Integer 1) (ConsCell (Symbol ''d'') NilData)"
             and err = "HostError ''unbound symbol''" and v = "Integer 1"]
  by (simp add: example_host_def init_def ObjectP_def)

section \<open>The claims about calls in reachable worlds\<close>

text \<open>
  C7. \<open>wake\<close> on a valid Process handle puts one boolean into the wake channel of the
  process, which has one slot: the call blocks exactly when the slot is taken, it
  returns the string \<open>OK\<close> when the slot is free, leaving that one event in the
  slot, it checks nothing else, and once a sleeper has taken the event out of the slot
  the call returns \<open>OK\<close>.
\<close>

theorem wake_blocks_iff_slot_taken:
  assumes "run_events h evs init = Some w"
    and "Eval h (Car args) en = Inr (Object ''Process'' p)" and "p < length (heap w)"
  shows "capacity (Wake (heap w ! p)) = 1
     \<and> (fst (WakeImpl h args en w) = Blocked \<longleftrightarrow> buffer (Wake (heap w ! p)) \<noteq> [])
     \<and> (buffer (Wake (heap w ! p)) = [] \<longrightarrow>
          WakeImpl h args en w =
            (Returned (Inr (StringWithValue ''OK'')),
             store p ((heap w ! p)\<lparr>Wake := \<lparr>capacity = 1, buffer = [True]\<rparr>\<rparr>)
               (w\<lparr>evals := evals w @ [(Car args, en)]\<rparr>)))
     \<and> (\<forall>tm r w1. sleep_select OnWake (Some p) tm w = (Returned r, w1) \<longrightarrow>
          fst (WakeImpl h args en w1) = Returned (Inr (StringWithValue ''OK'')))"
proof -
  from assms(1) have wf: "wf_world w" by (rule reach_wf)
  note ok = wf_chans(1)[OF wf assms(3)]
  have a: "capacity (Wake (heap w ! p)) = 1" using ok by (simp add: chan_ok_def)
  have b: "fst (WakeImpl h args en w) = Blocked \<longleftrightarrow> buffer (Wake (heap w ! p)) \<noteq> []"
    by (simp add: WakeImpl_valid[OF assms(2,3)] send_one_slot[OF ok])
  have c: "buffer (Wake (heap w ! p)) = [] \<longrightarrow>
          WakeImpl h args en w =
            (Returned (Inr (StringWithValue ''OK'')),
             store p ((heap w ! p)\<lparr>Wake := \<lparr>capacity = 1, buffer = [True]\<rparr>\<rparr>)
               (w\<lparr>evals := evals w @ [(Car args, en)]\<rparr>))"
    by (simp add: WakeImpl_valid[OF assms(2,3)] send_one_slot[OF ok])
  have d: "fst (WakeImpl h args en w1) = Returned (Inr (StringWithValue ''OK''))"
    if "sleep_select OnWake (Some p) tm w = (Returned r, w1)" for tm r w1
  proof -
    from that assms(3) have "heap w1 = (heap w)[p := (heap w ! p)\<lparr>Wake := \<lparr>capacity = 1, buffer = []\<rparr>\<rparr>]"
      by (auto simp: sleep_select_def deref_def recv_one_slot[OF ok] store_def split: list.splits)
    then have "p < length (heap w1)" "Wake (heap w1 ! p) = \<lparr>capacity = 1, buffer = []\<rparr>"
      using assms(3) by simp_all
    then show ?thesis
      by (simp add: WakeImpl_valid[OF assms(2)] send_def)
  qed
  from a b c d show ?thesis by blast
qed

theorem wake_blocks_iff_slot_taken_witness:
  "run_events example_host [fork_now] init = Some forked_world
   \<and> run_events example_host [fork_now, Call ''wake'' OnWake handle0_args 0] init
       = Some (with_wake forked_world\<lparr>evals := [(callback1, 0), (handle0, 0)]\<rparr>)
   \<and> Eval example_host (Car handle0_args) 0 = Inr (Object ''Process'' 0)
   \<and> 0 < length (heap forked_world)
   \<and> buffer (Wake (heap forked_world ! 0)) = []
   \<and> fst (WakeImpl example_host handle0_args 0 forked_world) = Returned (Inr (StringWithValue ''OK''))
   \<and> fst (WakeImpl example_host handle0_args 0
            (with_wake forked_world\<lparr>evals := [(callback1, 0), (handle0, 0)]\<rparr>)) = Blocked
   \<and> sleep_select OnWake (Some 0) (NewTimer 0 0)
         (with_wake forked_world\<lparr>evals := [(callback1, 0), (handle0, 0)]\<rparr>)
       = (Returned (Inr (BooleanWithValue True)),
          forked_world\<lparr>evals := [(callback1, 0), (handle0, 0)]\<rparr>)
   \<and> fst (WakeImpl example_host handle0_args 0
            (forked_world\<lparr>evals := [(callback1, 0), (handle0, 0)]\<rparr>))
       = Returned (Inr (StringWithValue ''OK''))"
proof -
  have r1: "run_events example_host [fork_now] init = Some forked_world"
    by (simp add: model_defs example_defs)
  have r2: "run_events example_host [fork_now, Call ''wake'' OnWake handle0_args 0] init
       = Some (with_wake forked_world\<lparr>evals := [(callback1, 0), (handle0, 0)]\<rparr>)"
    by (simp add: model_defs example_defs)
  have e: "Eval example_host (Car handle0_args) 0 = Inr (Object ''Process'' 0)"
    by (simp add: example_defs)
  have l1: "0 < length (heap forked_world)" by (simp add: example_defs)
  have l2: "0 < length (heap (with_wake forked_world\<lparr>evals := [(callback1, 0), (handle0, 0)]\<rparr>))"
    by (simp add: example_defs)
  have sl: "sleep_select OnWake (Some 0) (NewTimer 0 0)
         (with_wake forked_world\<lparr>evals := [(callback1, 0), (handle0, 0)]\<rparr>)
       = (Returned (Inr (BooleanWithValue True)),
          forked_world\<lparr>evals := [(callback1, 0), (handle0, 0)]\<rparr>)"
    by (simp add: model_defs example_defs)
  from wake_blocks_iff_slot_taken[OF r2 e l2] sl
  have dr: "fst (WakeImpl example_host handle0_args 0
            (forked_world\<lparr>evals := [(callback1, 0), (handle0, 0)]\<rparr>))
       = Returned (Inr (StringWithValue ''OK''))"
    by blast
  from wake_blocks_iff_slot_taken[OF r1 e l1] wake_blocks_iff_slot_taken[OF r2 e l2] r1 r2 e l1
  have "run_events example_host [fork_now] init = Some forked_world
   \<and> run_events example_host [fork_now, Call ''wake'' OnWake handle0_args 0] init
       = Some (with_wake forked_world\<lparr>evals := [(callback1, 0), (handle0, 0)]\<rparr>)
   \<and> Eval example_host (Car handle0_args) 0 = Inr (Object ''Process'' 0)
   \<and> 0 < length (heap forked_world)
   \<and> buffer (Wake (heap forked_world ! 0)) = []
   \<and> fst (WakeImpl example_host handle0_args 0 forked_world) = Returned (Inr (StringWithValue ''OK''))
   \<and> fst (WakeImpl example_host handle0_args 0
            (with_wake forked_world\<lparr>evals := [(callback1, 0), (handle0, 0)]\<rparr>)) = Blocked"
    by (simp add: example_defs make_chan_def)
  with sl dr show ?thesis by blast
qed

text \<open>
  C2. \<open>reset-timeout\<close> never blocks; it returns \<open>OK\<close> exactly when the controller
  is waiting in the Armed state, and the string
  \<open>task was already completed or abandoned\<close> whenever the controller has exited or
  an earlier restart event is still undelivered. On the code: \<open>schedule\<close> with a
  delay of 0 and a callback of one argument, then the controller takes the timer case
  and calls the callback; it has left its loop (Fired). \<open>reset-timeout\<close> on the
  handle now finds the slot of the restart channel free and returns \<open>OK\<close>.
\<close>

theorem reset_timeout_after_fired:
  "run_events example_host [schedule_now, Task 0 OnTimer] init = Some fired_world
   \<and> tasks fired_world ! 0 = ScheduleTask 0 0 callback1 handle0 0 Fired
   \<and> calls fired_world = [(callback1, InternalMakeList handle0, 0)]
   \<and> fst (ResetTimeoutImpl example_host handle0_args 0 fired_world)
       = Returned (Inr (StringWithValue ''OK''))"
  by (simp add: model_defs example_defs)

theorem reset_timeout_after_fired_witness:
  "\<not> armed (tasks fired_world ! 0)
   \<and> fst (ResetTimeoutImpl example_host handle0_args 0 fired_world)
       \<noteq> Returned (Inr (StringWithValue ''task was already completed or abandoned''))"
  using reset_timeout_after_fired by (simp add: StringWithValue_def)

text \<open>
  C3, as stated, fails: after the controller of a scheduled process has fired and
  left its loop, \<open>abandon\<close> on the handle does not block, it returns \<open>OK\<close>.
\<close>

theorem abandon_after_fired_returns:
  "run_events example_host [schedule_now, Task 0 OnTimer] init = Some fired_world
   \<and> tasks fired_world ! 0 = ScheduleTask 0 0 callback1 handle0 0 Fired
   \<and> fst (AbandonImpl example_host handle0_args 0 fired_world)
       = Returned (Inr (StringWithValue ''OK''))
   \<and> fst (AbandonImpl example_host handle0_args 0 fired_world) \<noteq> Blocked"
  by (simp add: model_defs example_defs)

text \<open>
  C3, amended. \<open>abandon\<close> on a valid Process handle sends one event into the abort
  channel with a blocking send. The channel has one slot: the call blocks exactly when
  the slot is taken, and with a free slot it returns \<open>OK\<close> and leaves its event in
  the slot, whether or not a controller is there to take it. When the slot is taken
  and no controller of the process is in its loop (it has exited, or the process was
  forked), nothing takes the event out again: the call blocks in every world that can
  follow.
\<close>

theorem abandon_blocks_on_taken_slot:
  assumes "run_events h evs init = Some w"
    and "Eval h (Car args) en = Inr (Object ''Process'' p)" and "p < length (heap w)"
  shows "(fst (AbandonImpl h args en w) = Blocked \<longleftrightarrow> buffer (Abort (heap w ! p)) \<noteq> [])
     \<and> (buffer (Abort (heap w ! p)) = [] \<longrightarrow>
          AbandonImpl h args en w =
            (Returned (Inr (StringWithValue ''OK'')),
             store p ((heap w ! p)\<lparr>Abort := \<lparr>capacity = 1, buffer = [True]\<rparr>\<rparr>)
               (w\<lparr>evals := evals w @ [(Car args, en)]\<rparr>)))
     \<and> (\<not> armed (tasks w ! p) \<and> buffer (Abort (heap w ! p)) \<noteq> [] \<longrightarrow>
          (\<forall>evs' w'. run_events h evs' w = Some w' \<longrightarrow>
             fst (AbandonImpl h args en w') = Blocked))"
proof -
  from assms(1) have wf: "wf_world w" by (rule reach_wf)
  note ok = wf_chans(2)[OF wf assms(3)]
  have a: "fst (AbandonImpl h args en w) = Blocked \<longleftrightarrow> buffer (Abort (heap w ! p)) \<noteq> []"
    by (simp add: AbandonImpl_valid[OF assms(2,3)] send_one_slot[OF ok])
  have b: "buffer (Abort (heap w ! p)) = [] \<longrightarrow>
          AbandonImpl h args en w =
            (Returned (Inr (StringWithValue ''OK'')),
             store p ((heap w ! p)\<lparr>Abort := \<lparr>capacity = 1, buffer = [True]\<rparr>\<rparr>)
               (w\<lparr>evals := evals w @ [(Car args, en)]\<rparr>))"
    by (simp add: AbandonImpl_valid[OF assms(2,3)] send_one_slot[OF ok])
  have c: "fst (AbandonImpl h args en w') = Blocked"
    if na: "\<not> armed (tasks w ! p)" and full: "buffer (Abort (heap w ! p)) \<noteq> []"
      and run: "run_events h evs' w = Some w'" for evs' w'
  proof -
    from exited_run[OF wf run assms(3) na] full
    have wf': "wf_world w'" and p': "p < length (heap w')"
      and buf: "buffer (Abort (heap w' ! p)) \<noteq> []"
      by auto
    show ?thesis
      using buf by (simp add: AbandonImpl_valid[OF assms(2) p'] send_one_slot[OF wf_chans(2)[OF wf' p']])
  qed
  from a b c show ?thesis by blast
qed

theorem abandon_blocks_on_taken_slot_witness:
  "run_events example_host [schedule_now, Task 0 OnTimer] init = Some fired_world
   \<and> run_events example_host [schedule_now, Task 0 OnTimer, Call ''abandon'' OnWake handle0_args 0]
        init = Some (with_abort fired_world\<lparr>evals := evals fired_world @ [(handle0, 0)]\<rparr>)
   \<and> Eval example_host (Car handle0_args) 0 = Inr (Object ''Process'' 0)
   \<and> 0 < length (heap fired_world)
   \<and> \<not> armed (tasks (with_abort fired_world\<lparr>evals := evals fired_world @ [(handle0, 0)]\<rparr>) ! 0)
   \<and> buffer (Abort (heap (with_abort fired_world\<lparr>evals := evals fired_world @ [(handle0, 0)]\<rparr>) ! 0))
        = [True]
   \<and> run_events example_host [Tick 5, Call ''wake'' OnWake handle0_args 0]
        (with_abort fired_world\<lparr>evals := evals fired_world @ [(handle0, 0)]\<rparr>)
        = Some (with_wake (with_abort fired_world)
                  \<lparr>clock := 5, evals := evals fired_world @ [(handle0, 0), (handle0, 0)]\<rparr>)
   \<and> fst (AbandonImpl example_host handle0_args 0 fired_world)
        = Returned (Inr (StringWithValue ''OK''))
   \<and> fst (AbandonImpl example_host handle0_args 0
        (with_wake (with_abort fired_world)
                  \<lparr>clock := 5, evals := evals fired_world @ [(handle0, 0), (handle0, 0)]\<rparr>)) = Blocked"
proof -
  let ?w = "with_abort fired_world\<lparr>evals := evals fired_world @ [(handle0, 0)]\<rparr>"
  let ?w' = "with_wake (with_abort fired_world)
                  \<lparr>clock := 5, evals := evals fired_world @ [(handle0, 0), (handle0, 0)]\<rparr>"
  have r1: "run_events example_host [schedule_now, Task 0 OnTimer] init = Some fired_world"
    by (simp add: model_defs example_defs)
  have r2: "run_events example_host
              [schedule_now, Task 0 OnTimer, Call ''abandon'' OnWake handle0_args 0] init = Some ?w"
    by (simp add: model_defs example_defs)
  have e: "Eval example_host (Car handle0_args) 0 = Inr (Object ''Process'' 0)"
    by (simp add: example_defs)
  have l1: "0 < length (heap fired_world)" by (simp add: example_defs)
  have l2: "0 < length (heap ?w)" by (simp add: example_defs)
  have na: "\<not> armed (tasks ?w ! 0)" by (simp add: example_defs)
  have full: "buffer (Abort (heap ?w ! 0)) = [True]" by (simp add: example_defs)
  have r3: "run_events example_host [Tick 5, Call ''wake'' OnWake handle0_args 0] ?w = Some ?w'"
    by (simp add: model_defs example_defs)
  from abandon_blocks_on_taken_slot[OF r1 e l1] have "fst (AbandonImpl example_host handle0_args 0 fired_world)
        = Returned (Inr (StringWithValue ''OK''))"
    by (simp add: example_defs make_chan_def)
  moreover from abandon_blocks_on_taken_slot[OF r2 e l2] na full r3
  have "fst (AbandonImpl example_host handle0_args 0 ?w') = Blocked"
    by (metis list.distinct(1))
  ultimately show ?thesis using r1 r2 e l1 na full r3 by blast
qed

text \<open>
  C9. A process made by \<open>fork\<close> has no controller, so nothing ever takes an event out
  of its abort or restart channel. Each of these channels has one slot: the first
  \<open>abandon\<close> on the handle returns \<open>OK\<close> without blocking, the first
  \<open>reset-timeout\<close> returns \<open>OK\<close> and not the other string, and every
  \<open>abandon\<close> after the first blocks.
\<close>

theorem forked_process_first_signals:
  assumes "run_events h evs init = Some w0"
    and "ForkImpl h args en w0 = (Returned (Inr po), w1)"
    and "Eval h (Car args') en' = Inr po"
  shows "po = Object ''Process'' (length (heap w0))
     \<and> \<not> armed (tasks w1 ! length (heap w0))
     \<and> (\<forall>evs1 w. run_events h evs1 w1 = Some w
                  \<and> list_all (\<lambda>ev. \<not> abandons h (length (heap w0)) ev) evs1 \<longrightarrow>
           fst (AbandonImpl h args' en' w) = Returned (Inr (StringWithValue ''OK''))
           \<and> (\<forall>evs2 w'. run_events h evs2 (snd (AbandonImpl h args' en' w)) = Some w' \<longrightarrow>
                  fst (AbandonImpl h args' en' w') = Blocked))
     \<and> (\<forall>evs1 w. run_events h evs1 w1 = Some w
                  \<and> list_all (\<lambda>ev. \<not> resets h (length (heap w0)) ev) evs1 \<longrightarrow>
           fst (ResetTimeoutImpl h args' en' w) = Returned (Inr (StringWithValue ''OK'')))"
proof -
  let ?p = "length (heap w0)"
  from assms(1) have wf0: "wf_world w0" by (rule reach_wf)
  then have len0: "length (tasks w0) = length (heap w0)" by (simp add: wf_world_def)
  from ForkImpl_success[OF assms(2)] obtain f where
    po: "po = Object ''Process'' ?p"
    and h1: "heap w1 = heap w0 @ [\<lparr>Env = en, Code = f, Wake = make_chan 1, Abort = make_chan 1,
                               Restart = make_chan 1, ScheduleTimer = None\<rparr>]"
    and t1: "tasks w1 = tasks w0 @ [ForkTask f po en False]"
    by blast
  have wf1: "wf_world w1" using wf_ForkImpl[OF wf0 assms(2)] .
  have p1: "?p < length (heap w1)" using h1 by simp
  have na1: "\<not> armed (tasks w1 ! ?p)" using t1 len0 by (simp add: nth_append)
  have empty1: "buffer (Abort (heap w1 ! ?p)) = []" "buffer (Restart (heap w1 ! ?p)) = []"
    using h1 by (simp_all add: nth_append make_chan_def)
  have ev: "Eval h (Car args') en' = Inr (Object ''Process'' ?p)" using assms(3) po by simp
  have a: "fst (AbandonImpl h args' en' w) = Returned (Inr (StringWithValue ''OK''))
           \<and> (\<forall>evs2 w'. run_events h evs2 (snd (AbandonImpl h args' en' w)) = Some w' \<longrightarrow>
                  fst (AbandonImpl h args' en' w') = Blocked)"
    if run: "run_events h evs1 w1 = Some w"
      and first: "list_all (\<lambda>ev. \<not> abandons h ?p ev) evs1" for evs1 w
  proof -
    from exited_run[OF wf1 run p1 na1] first empty1
    have wf: "wf_world w" and p: "?p < length (heap w)" and na: "\<not> armed (tasks w ! ?p)"
      and buf: "buffer (Abort (heap w ! ?p)) = []"
      by auto
    note ok = wf_chans(2)[OF wf p]
    let ?w2 = "snd (AbandonImpl h args' en' w)"
    have ab: "AbandonImpl h args' en' w =
            (Returned (Inr (StringWithValue ''OK'')),
             store ?p ((heap w ! ?p)\<lparr>Abort := \<lparr>capacity = 1, buffer = [True]\<rparr>\<rparr>)
               (w\<lparr>evals := evals w @ [(Car args', en')]\<rparr>))"
      using buf by (simp add: AbandonImpl_valid[OF ev p] send_one_slot[OF ok])
    have wf2: "wf_world ?w2" using wf_AbandonImpl[OF wf] by (metis prod.collapse)
    have p2: "?p < length (heap ?w2)" using p by (simp add: ab store_def)
    have na2: "\<not> armed (tasks ?w2 ! ?p)" using na by (simp add: ab store_def)
    have full: "buffer (Abort (heap ?w2 ! ?p)) \<noteq> []" using p by (simp add: ab store_def)
    have "fst (AbandonImpl h args' en' w') = Blocked"
      if run2: "run_events h evs2 ?w2 = Some w'" for evs2 w'
    proof -
      from exited_run[OF wf2 run2 p2 na2] full
      have wf': "wf_world w'" and p': "?p < length (heap w')"
        and buf': "buffer (Abort (heap w' ! ?p)) \<noteq> []"
        by auto
      show ?thesis
        using buf'
        by (simp add: AbandonImpl_valid[OF ev p'] send_one_slot[OF wf_chans(2)[OF wf' p']])
    qed
    with ab show ?thesis by simp
  qed
  have b: "fst (ResetTimeoutImpl h args' en' w) = Returned (Inr (StringWithValue ''OK''))"
    if run: "run_events h evs1 w1 = Some w"
      and first: "list_all (\<lambda>ev. \<not> resets h ?p ev) evs1" for evs1 w
  proof -
    from exited_run[OF wf1 run p1 na1] first empty1
    have wf: "wf_world w" and p: "?p < length (heap w)"
      and buf: "buffer (Restart (heap w ! ?p)) = []"
      by auto
    show ?thesis
      using buf by (simp add: ResetTimeoutImpl_valid[OF ev p] send_one_slot[OF wf_chans(3)[OF wf p]])
  qed
  from po na1 a b show ?thesis by blast
qed

theorem forked_process_first_signals_witness:
  "run_events example_host [] init = Some init
   \<and> ForkImpl example_host (ConsCell callback1 NilData) 0 init = (Returned (Inr handle0), forked_world)
   \<and> Eval example_host (Car handle0_args) 0 = Inr handle0
   \<and> run_events example_host [Task 0 OnTimer, Tick 3] forked_world
        = Some (forked_world\<lparr>clock := 3, tasks := [ForkTask callback1 handle0 0 True],
                  calls := [(callback1, InternalMakeList handle0, 0)]\<rparr>)
   \<and> list_all (\<lambda>ev. \<not> abandons example_host 0 ev) [Task 0 OnTimer, Tick 3]
   \<and> list_all (\<lambda>ev. \<not> resets example_host 0 ev) [Task 0 OnTimer, Tick 3]
   \<and> fst (AbandonImpl example_host handle0_args 0
        (forked_world\<lparr>clock := 3, tasks := [ForkTask callback1 handle0 0 True],
                  calls := [(callback1, InternalMakeList handle0, 0)]\<rparr>))
       = Returned (Inr (StringWithValue ''OK''))
   \<and> fst (ResetTimeoutImpl example_host handle0_args 0
        (forked_world\<lparr>clock := 3, tasks := [ForkTask callback1 handle0 0 True],
                  calls := [(callback1, InternalMakeList handle0, 0)]\<rparr>))
       = Returned (Inr (StringWithValue ''OK''))
   \<and> fst (AbandonImpl example_host handle0_args 0
        (snd (AbandonImpl example_host handle0_args 0
        (forked_world\<lparr>clock := 3, tasks := [ForkTask callback1 handle0 0 True],
                  calls := [(callback1, InternalMakeList handle0, 0)]\<rparr>)))) = Blocked"
proof -
  let ?w = "forked_world\<lparr>clock := 3, tasks := [ForkTask callback1 handle0 0 True],
                  calls := [(callback1, InternalMakeList handle0, 0)]\<rparr>"
  have r0: "run_events example_host [] init = Some init" by simp
  have fk: "ForkImpl example_host (ConsCell callback1 NilData) 0 init
              = (Returned (Inr handle0), forked_world)"
    by (simp add: model_defs example_defs)
  have e: "Eval example_host (Car handle0_args) 0 = Inr handle0"
    by (simp add: example_defs)
  have r1: "run_events example_host [Task 0 OnTimer, Tick 3] forked_world = Some ?w"
    by (simp add: model_defs example_defs)
  have n1: "list_all (\<lambda>ev. \<not> abandons example_host 0 ev) [Task 0 OnTimer, Tick 3]" by simp
  have n2: "list_all (\<lambda>ev. \<not> resets example_host 0 ev) [Task 0 OnTimer, Tick 3]" by simp
  have r2: "run_events example_host [] (snd (AbandonImpl example_host handle0_args 0 ?w))
              = Some (snd (AbandonImpl example_host handle0_args 0 ?w))" by simp
  have z: "length (heap init) = 0" by (simp add: init_def)
  note inst = forked_process_first_signals[OF r0 fk e, unfolded z]
  from inst r1 n1 have "fst (AbandonImpl example_host handle0_args 0 ?w)
       = Returned (Inr (StringWithValue ''OK''))" by blast
  moreover from inst r1 n2 have "fst (ResetTimeoutImpl example_host handle0_args 0 ?w)
       = Returned (Inr (StringWithValue ''OK''))" by blast
  moreover from inst r1 n1 r2
  have "fst (AbandonImpl example_host handle0_args 0
          (snd (AbandonImpl example_host handle0_args 0 ?w))) = Blocked" by blast
  ultimately show ?thesis using r0 fk e r1 n1 n2 by blast
qed

text \<open>
  C4. \<open>proc-sleep\<close> on a valid Process handle and an integer count of milliseconds
  is a select between two events, a receive on the wake channel of the process and
  the elapse of a timer of that duration made when the select is entered. The call
  gives one result: the boolean true exactly when the wake case proceeds, which it
  does only on an event in the wake channel and which takes that one event; the
  boolean false exactly when the timer case proceeds, which it does only once the
  timer has elapsed and which leaves the world as it is; and it blocks while neither
  has happened.
\<close>

theorem proc_sleep_race:
  assumes "Eval h (Car args) en = Inr (Object ''Process'' p)"
    and "Eval h (Cadr args) en = Inr (Integer n)"
  shows "ProcSleepImpl h cs args en w =
           sleep_select cs (Some p) (NewTimer (clock w) (Duration n))
             (w\<lparr>evals := evals w @ [(Car args, en), (Cadr args, en)]\<rparr>)
     \<and> (\<forall>w'. p < length (heap w') \<longrightarrow>
          (fst (sleep_select cs (Some p) (NewTimer (clock w) (Duration n)) w')
              = Returned (Inr (BooleanWithValue True))
             \<longleftrightarrow> cs = OnWake \<and> buffer (Wake (heap w' ! p)) \<noteq> [])
        \<and> (fst (sleep_select cs (Some p) (NewTimer (clock w) (Duration n)) w')
              = Returned (Inr (BooleanWithValue False))
             \<longleftrightarrow> cs = OnAfter \<and> expiry_of (clock w) (Duration n) \<le> clock w')
        \<and> (fst (sleep_select cs (Some p) (NewTimer (clock w) (Duration n)) w') = Blocked
             \<longleftrightarrow> cs = OnWake \<and> buffer (Wake (heap w' ! p)) = []
                 \<or> cs = OnAfter \<and> clock w' < expiry_of (clock w) (Duration n))
        \<and> (cs = OnWake \<and> buffer (Wake (heap w' ! p)) \<noteq> [] \<longrightarrow>
              snd (sleep_select cs (Some p) (NewTimer (clock w) (Duration n)) w')
                = store p ((heap w' ! p)
                     \<lparr>Wake := (Wake (heap w' ! p))\<lparr>buffer := tl (buffer (Wake (heap w' ! p)))\<rparr>\<rparr>) w')
        \<and> (cs = OnAfter \<longrightarrow>
              snd (sleep_select cs (Some p) (NewTimer (clock w) (Duration n)) w') = w'))
     \<and> (0 \<le> sint n \<and> sint n * 1000000 < 2 ^ 63 \<longrightarrow>
          expiry_of (clock w) (Duration n) = clock w + sint n * 1000000)"
proof -
  let ?tm = "NewTimer (clock w) (Duration n)"
  have a: "ProcSleepImpl h cs args en w =
           sleep_select cs (Some p) ?tm (w\<lparr>evals := evals w @ [(Car args, en), (Cadr args, en)]\<rparr>)"
    using assms by (simp add: ProcSleepImpl_def eval_def ObjectP_def)
  have tmr: "recv (C (expire clk ?tm)) = None \<longleftrightarrow> clk < expiry_of (clock w) (Duration n)" for clk
    by (auto simp: NewTimer_def expire_def recv_def send_def make_chan_def)
  have b: "(fst (sleep_select cs (Some p) ?tm w') = Returned (Inr (BooleanWithValue True))
             \<longleftrightarrow> cs = OnWake \<and> buffer (Wake (heap w' ! p)) \<noteq> [])
        \<and> (fst (sleep_select cs (Some p) ?tm w') = Returned (Inr (BooleanWithValue False))
             \<longleftrightarrow> cs = OnAfter \<and> expiry_of (clock w) (Duration n) \<le> clock w')
        \<and> (fst (sleep_select cs (Some p) ?tm w') = Blocked
             \<longleftrightarrow> cs = OnWake \<and> buffer (Wake (heap w' ! p)) = []
                 \<or> cs = OnAfter \<and> clock w' < expiry_of (clock w) (Duration n))
        \<and> (cs = OnWake \<and> buffer (Wake (heap w' ! p)) \<noteq> [] \<longrightarrow>
              snd (sleep_select cs (Some p) ?tm w')
                = store p ((heap w' ! p)
                     \<lparr>Wake := (Wake (heap w' ! p))\<lparr>buffer := tl (buffer (Wake (heap w' ! p)))\<rparr>\<rparr>) w')
        \<and> (cs = OnAfter \<longrightarrow> snd (sleep_select cs (Some p) ?tm w') = w')"
    if p: "p < length (heap w')" for w'
  proof (cases cs)
    case OnWake
    with p show ?thesis
      by (cases "buffer (Wake (heap w' ! p))")
         (simp_all add: sleep_select_def deref_def recv_def BooleanWithValue_def)
  next
    case OnAfter
    with p tmr[of "clock w'"] show ?thesis
      by (cases "recv (C (expire (clock w') ?tm))")
         (auto simp: sleep_select_def deref_def BooleanWithValue_def)
  qed
  have c: "0 \<le> sint n \<and> sint n * 1000000 < 2 ^ 63 \<longrightarrow>
          expiry_of (clock w) (Duration n) = clock w + sint n * 1000000"
    by (auto simp: expiry_of_def Duration_in_range)
  from a b c show ?thesis by blast
qed

theorem proc_sleep_race_witness:
  "Eval example_host (Car sleep_args) 0 = Inr (Object ''Process'' 0)
   \<and> Eval example_host (Cadr sleep_args) 0 = Inr (Integer 100)
   \<and> 0 < length (heap forked_world)
   \<and> (0::int) \<le> sint (100::64 word) \<and> sint (100::64 word) * 1000000 < 2 ^ 63
   \<and> fst (ProcSleepImpl example_host OnWake sleep_args 0 (with_wake forked_world))
       = Returned (Inr (BooleanWithValue True))
   \<and> fst (ProcSleepImpl example_host OnWake sleep_args 0 forked_world) = Blocked
   \<and> fst (ProcSleepImpl example_host OnAfter sleep_args 0 forked_world) = Blocked
   \<and> fst (sleep_select OnAfter (Some 0) (NewTimer (clock forked_world) (Duration 100))
            (forked_world\<lparr>clock := 100000000\<rparr>))
       = Returned (Inr (BooleanWithValue False))
   \<and> expiry_of (clock forked_world) (Duration 100) = 100000000"
proof -
  have e1: "Eval example_host (Car sleep_args) 0 = Inr (Object ''Process'' 0)"
    and e2: "Eval example_host (Cadr sleep_args) 0 = Inr (Integer 100)"
    by (simp_all add: example_defs Cadr_def)
  have l: "0 < length (heap forked_world)" by (simp add: example_defs)
  have rng: "(0::int) \<le> sint (100::64 word) \<and> sint (100::64 word) * 1000000 < 2 ^ 63" by simp
  have c0: "clock forked_world = 0" by (simp add: example_defs)
  note inst = proc_sleep_race[OF e1 e2]
  from inst[where cs = OnWake and w = forked_world] rng c0
  have ex: "expiry_of (clock forked_world) (Duration 100) = 100000000" by simp
  have "fst (ProcSleepImpl example_host OnWake sleep_args 0 (with_wake forked_world))
       = Returned (Inr (BooleanWithValue True))"
    using inst[where cs = OnWake and w = "with_wake forked_world"]
    by (simp add: example_defs)
  moreover have "fst (ProcSleepImpl example_host OnWake sleep_args 0 forked_world) = Blocked"
    using inst[where cs = OnWake and w = forked_world]
    by (simp add: example_defs make_chan_def)
  moreover have "fst (ProcSleepImpl example_host OnAfter sleep_args 0 forked_world) = Blocked"
    using inst[where cs = OnAfter and w = forked_world] ex
    by (simp add: example_defs)
  moreover have "fst (sleep_select OnAfter (Some 0) (NewTimer (clock forked_world) (Duration 100))
            (forked_world\<lparr>clock := 100000000\<rparr>))
       = Returned (Inr (BooleanWithValue False))"
    using inst[where cs = OnAfter and w = forked_world, THEN conjunct2, THEN conjunct1,
                THEN spec, of "forked_world\<lparr>clock := 100000000\<rparr>"] ex l
    by simp
  ultimately show ?thesis using e1 e2 l rng ex by blast
qed

section \<open>The claims about the controller of a scheduled process\<close>

text \<open>
  C6. When the controller of a scheduled process, in the Armed state, receives an
  event on the restart channel, it resets the timer to the delay that \<open>schedule\<close>
  evaluated, counted from now, and stays in the Armed state: the task and every
  other part of the world are as before, only the event is gone from the restart
  channel and the timer is active again with the new expiry.
\<close>

theorem restart_rearms_with_scheduled_delay:
  assumes "run_events h evs0 init = Some w0"
    and "ScheduleImpl h args en w0 = (Returned (Inr po), w1)"
    and "run_events h evs w1 = Some w"
  shows "\<exists>n f st tm.
       Eval h (Car args) en = Inr (Integer n)
     \<and> ScheduleTimer (heap w1 ! length (heap w0)) = Some (NewTimer (clock w0) (Duration n))
     \<and> tasks w ! length (heap w0) = ScheduleTask (length (heap w0)) n f po en st
     \<and> ScheduleTimer (heap w ! length (heap w0)) = Some tm
     \<and> (st = Armed \<longrightarrow>
          run_task h (length (heap w0)) OnRestart w =
            (if buffer (Restart (heap w ! length (heap w0))) = [] then None
             else Some (store (length (heap w0))
                          ((heap w ! length (heap w0))
                             \<lparr>Restart := \<lparr>capacity = 1, buffer = []\<rparr>,
                              ScheduleTimer := Some (Reset (clock w) (Duration n) tm)\<rparr>) w)))
     \<and> (st = Armed \<and> buffer (Restart (heap w ! length (heap w0))) \<noteq> [] \<longrightarrow>
          (\<exists>w'. run_task h (length (heap w0)) OnRestart w = Some w'
              \<and> tasks w' ! length (heap w0) = ScheduleTask (length (heap w0)) n f po en Armed
              \<and> ScheduleTimer (heap w' ! length (heap w0))
                  = Some (Reset (clock w) (Duration n) tm)
              \<and> buffer (Restart (heap w' ! length (heap w0))) = []
              \<and> calls w' = calls w))
     \<and> active (Reset (clock w) (Duration n) tm)
     \<and> expiry (Reset (clock w) (Duration n) tm) = expiry_of (clock w) (Duration n)
     \<and> expiry (NewTimer (clock w0) (Duration n)) = expiry_of (clock w0) (Duration n)"
  using assms(1,2,3)
proof (rule scheduled_task)
  fix n f st tm
  assume a: "Eval h (Car args) en = Inr (Integer n)"
    "ScheduleTimer (heap w1 ! length (heap w0)) = Some (NewTimer (clock w0) (Duration n))"
    "tasks w ! length (heap w0) = ScheduleTask (length (heap w0)) n f po en st"
    "ScheduleTimer (heap w ! length (heap w0)) = Some tm"
    "length (heap w0) < length (tasks w)" "wf_world w" "length (heap w0) < length (heap w)"
  have rt: "st = Armed \<longrightarrow>
          run_task h (length (heap w0)) OnRestart w =
            (if buffer (Restart (heap w ! length (heap w0))) = [] then None
             else Some (store (length (heap w0))
                          ((heap w ! length (heap w0))
                             \<lparr>Restart := \<lparr>capacity = 1, buffer = []\<rparr>,
                              ScheduleTimer := Some (Reset (clock w) (Duration n) tm)\<rparr>) w))"
    using run_task_restart[OF a(6,5) _ a(4)] a(3) by simp
  then have "st = Armed \<and> buffer (Restart (heap w ! length (heap w0))) \<noteq> [] \<longrightarrow>
          (\<exists>w'. run_task h (length (heap w0)) OnRestart w = Some w'
              \<and> tasks w' ! length (heap w0) = ScheduleTask (length (heap w0)) n f po en Armed
              \<and> ScheduleTimer (heap w' ! length (heap w0))
                  = Some (Reset (clock w) (Duration n) tm)
              \<and> buffer (Restart (heap w' ! length (heap w0))) = []
              \<and> calls w' = calls w)"
    using a(3,7) by (simp add: store_def)
  moreover note rt
  moreover have "active (Reset (clock w) (Duration n) tm)"
    "expiry (Reset (clock w) (Duration n) tm) = expiry_of (clock w) (Duration n)"
    "expiry (NewTimer (clock w0) (Duration n)) = expiry_of (clock w0) (Duration n)"
    by (simp_all add: Reset_def NewTimer_def)
  ultimately show ?thesis using a(1-4) by blast
qed

theorem restart_rearms_with_scheduled_delay_witness:
  "run_events example_host [] init = Some init
   \<and> ScheduleImpl example_host schedule_args 0 init = (Returned (Inr handle0), later_world)
   \<and> run_events example_host [Tick 50000000, Call ''reset-timeout'' OnWake handle0_args 0]
        later_world = Some restart_pending
   \<and> tasks restart_pending ! 0 = ScheduleTask 0 100 callback1 handle0 0 Armed
   \<and> buffer (Restart (heap restart_pending ! 0)) = [True]
   \<and> Duration 100 = 100000000
   \<and> run_task example_host 0 OnRestart restart_pending = Some rearmed"
proof -
  have r0: "run_events example_host [] init = Some init" by simp
  have sc: "ScheduleImpl example_host schedule_args 0 init = (Returned (Inr handle0), later_world)"
    by (simp add: model_defs example_defs)
  have r1: "run_events example_host [Tick 50000000, Call ''reset-timeout'' OnWake handle0_args 0]
        later_world = Some restart_pending"
    by (simp add: model_defs example_defs)
  have t: "tasks restart_pending ! 0 = ScheduleTask 0 100 callback1 handle0 0 Armed"
    and b: "buffer (Restart (heap restart_pending ! 0)) = [True]"
    and tm: "ScheduleTimer (heap restart_pending ! 0)
               = Some \<lparr>C = make_chan 1, active = True, expiry = 100000000\<rparr>"
    and c: "clock restart_pending = 50000000"
    by (simp_all add: example_defs)
  have d: "Duration 100 = 100000000" by (simp add: Duration_def Millisecond_def)
  have z: "length (heap init) = 0" by (simp add: init_def)
  from restart_rearms_with_scheduled_delay[OF r0 sc r1, unfolded z]
  obtain n f st tm' where
    "tasks restart_pending ! 0 = ScheduleTask 0 n f handle0 0 st"
    "ScheduleTimer (heap restart_pending ! 0) = Some tm'"
    "st = Armed \<longrightarrow>
          run_task example_host 0 OnRestart restart_pending =
            (if buffer (Restart (heap restart_pending ! 0)) = [] then None
             else Some (store 0
                          ((heap restart_pending ! 0)
                             \<lparr>Restart := \<lparr>capacity = 1, buffer = []\<rparr>,
                              ScheduleTimer := Some (Reset (clock restart_pending) (Duration n) tm')\<rparr>)
                          restart_pending))"
    by blast
  with t b tm c d have "run_task example_host 0 OnRestart restart_pending =
     Some (store 0 ((heap restart_pending ! 0)
                             \<lparr>Restart := \<lparr>capacity = 1, buffer = []\<rparr>,
                              ScheduleTimer := Some (Reset 50000000 100000000
                                 \<lparr>C = make_chan 1, active = True, expiry = 100000000\<rparr>)\<rparr>)
                          restart_pending)"
    by simp
  also have "\<dots> = Some rearmed"
    by (simp add: example_defs store_def Reset_def expire_def expiry_of_def make_chan_def)
  finally show ?thesis using r0 sc r1 t b d by simp
qed

text \<open>
  C1. The controller of a scheduled process has three states. In the Armed state an
  event on the abort channel takes it to Aborted without a call of the callback, and
  an elapsed timer makes it call the callback once, on the list that holds only the
  handle, and takes it to Fired. In Aborted and in Fired the controller has no turn
  left: it takes nothing from the abort and restart channels, and whatever happens
  later its state and the calls of its callback stay as they are. So the callback of
  a scheduled process is called at most once, and never once the controller is
  Aborted.
\<close>

theorem controller_three_states:
  assumes "run_events h evs0 init = Some w0"
    and "ScheduleImpl h args en w0 = (Returned (Inr po), w1)"
    and "run_events h evs w1 = Some w"
  shows "\<exists>n f st tm.
       po = Object ''Process'' (length (heap w0))
     \<and> tasks w1 ! length (heap w0) = ScheduleTask (length (heap w0)) n f po en Armed
     \<and> tasks w ! length (heap w0) = ScheduleTask (length (heap w0)) n f po en st
     \<and> ScheduleTimer (heap w ! length (heap w0)) = Some tm
     \<and> invoked (length (heap w0)) w = (if st = Fired then [(f, InternalMakeList po, en)] else [])
     \<and> (st = Armed \<longrightarrow>
          run_task h (length (heap w0)) OnAbort w =
            (if buffer (Abort (heap w ! length (heap w0))) = [] then None
             else Some (set_task (length (heap w0))
                          (ScheduleTask (length (heap w0)) n f po en Aborted)
                          (store (length (heap w0))
                             ((heap w ! length (heap w0))
                                \<lparr>Abort := \<lparr>capacity = 1, buffer = []\<rparr>\<rparr>) w)))
          \<and> (recv (C (expire (clock w) tm)) = None \<longrightarrow>
                run_task h (length (heap w0)) OnTimer w = None)
          \<and> (recv (C (expire (clock w) tm)) \<noteq> None \<longrightarrow>
                (\<exists>w'. run_task h (length (heap w0)) OnTimer w = Some w'
                    \<and> tasks w' ! length (heap w0)
                        = ScheduleTask (length (heap w0)) n f po en Fired
                    \<and> calls w' = calls w @ [(f, InternalMakeList po, en)])))
     \<and> (st \<noteq> Armed \<longrightarrow>
          (\<forall>cs. run_task h (length (heap w0)) cs w = None)
          \<and> (\<forall>evs' w'. run_events h evs' w = Some w' \<longrightarrow>
                tasks w' ! length (heap w0) = tasks w ! length (heap w0)
                \<and> invoked (length (heap w0)) w' = invoked (length (heap w0)) w
                \<and> length (buffer (Abort (heap w ! length (heap w0))))
                    \<le> length (buffer (Abort (heap w' ! length (heap w0))))
                \<and> length (buffer (Restart (heap w ! length (heap w0))))
                    \<le> length (buffer (Restart (heap w' ! length (heap w0))))))"
  using assms(1,2,3)
proof (rule scheduled_task)
  fix n f st tm
  let ?i = "length (heap w0)"
  assume po: "po = Object ''Process'' ?i"
    and ta1: "tasks w1 ! ?i = ScheduleTask ?i n f po en Armed"
    and ta: "tasks w ! ?i = ScheduleTask ?i n f po en st"
    and tm: "ScheduleTimer (heap w ! ?i) = Some tm"
    and i: "?i < length (tasks w)" and ih: "?i < length (heap w)" and wf: "wf_world w"
  have inv: "invoked ?i w' = (if s = Fired then [(f, InternalMakeList po, en)] else [])"
    if "wf_world w'" "?i < length (heap w')" "tasks w' ! ?i = ScheduleTask ?i n f po en s"
    for w' s
    using that by (auto simp: wf_world_def entry_ok_def)
  have a: "st = Armed \<longrightarrow>
          run_task h ?i OnAbort w =
            (if buffer (Abort (heap w ! ?i)) = [] then None
             else Some (set_task ?i (ScheduleTask ?i n f po en Aborted)
                          (store ?i ((heap w ! ?i)\<lparr>Abort := \<lparr>capacity = 1, buffer = []\<rparr>\<rparr>) w)))"
    using run_task_abort[OF wf i] ta by simp
  have b: "st = Armed \<longrightarrow> recv (C (expire (clock w) tm)) = None \<longrightarrow>
                run_task h ?i OnTimer w = None"
    using run_task_timer_blocked[OF i ih _ tm] ta by simp
  have c: "st = Armed \<longrightarrow> recv (C (expire (clock w) tm)) \<noteq> None \<longrightarrow>
                (\<exists>w'. run_task h ?i OnTimer w = Some w'
                    \<and> tasks w' ! ?i = ScheduleTask ?i n f po en Fired
                    \<and> calls w' = calls w @ [(f, InternalMakeList po, en)])"
  proof (intro impI)
    assume "st = Armed" and "recv (C (expire (clock w) tm)) \<noteq> None"
    with run_task_timer_fires[OF i ih _ tm, of n f po en h] ta i
    show "\<exists>w'. run_task h ?i OnTimer w = Some w'
                    \<and> tasks w' ! ?i = ScheduleTask ?i n f po en Fired
                    \<and> calls w' = calls w @ [(f, InternalMakeList po, en)]"
      by auto
  qed
  have d: "st \<noteq> Armed \<longrightarrow> (\<forall>cs. run_task h ?i cs w = None)"
    using run_task_exited[OF i _ ta] ta by simp
  have e: "tasks w' ! ?i = tasks w ! ?i \<and> invoked ?i w' = invoked ?i w
                \<and> length (buffer (Abort (heap w ! ?i))) \<le> length (buffer (Abort (heap w' ! ?i)))
                \<and> length (buffer (Restart (heap w ! ?i)))
                    \<le> length (buffer (Restart (heap w' ! ?i)))"
    if ne: "st \<noteq> Armed" and run: "run_events h evs' w = Some w'" for evs' w'
  proof -
    from ne ta have na: "\<not> armed (tasks w ! ?i)" by simp
    from exited_run[OF wf run ih na]
    have wf': "wf_world w'" and ih': "?i < length (heap w')"
      and g: "length (buffer (Abort (heap w ! ?i))) \<le> length (buffer (Abort (heap w' ! ?i)))"
        "length (buffer (Restart (heap w ! ?i))) \<le> length (buffer (Restart (heap w' ! ?i)))"
      by simp_all
    from sched_task_run[OF run i ta] ne have ta': "tasks w' ! ?i = ScheduleTask ?i n f po en st"
      by auto
    from inv[OF wf' ih' ta'] inv[OF wf ih ta] ta ta' g show ?thesis by simp
  qed
  have armed_part: "st = Armed \<longrightarrow>
          run_task h ?i OnAbort w =
            (if buffer (Abort (heap w ! ?i)) = [] then None
             else Some (set_task ?i (ScheduleTask ?i n f po en Aborted)
                          (store ?i ((heap w ! ?i)\<lparr>Abort := \<lparr>capacity = 1, buffer = []\<rparr>\<rparr>) w)))
          \<and> (recv (C (expire (clock w) tm)) = None \<longrightarrow> run_task h ?i OnTimer w = None)
          \<and> (recv (C (expire (clock w) tm)) \<noteq> None \<longrightarrow>
                (\<exists>w'. run_task h ?i OnTimer w = Some w'
                    \<and> tasks w' ! ?i = ScheduleTask ?i n f po en Fired
                    \<and> calls w' = calls w @ [(f, InternalMakeList po, en)]))"
    using a b c by simp
  have exited_part: "st \<noteq> Armed \<longrightarrow>
          (\<forall>cs. run_task h ?i cs w = None)
          \<and> (\<forall>evs' w'. run_events h evs' w = Some w' \<longrightarrow>
                tasks w' ! ?i = tasks w ! ?i
                \<and> invoked ?i w' = invoked ?i w
                \<and> length (buffer (Abort (heap w ! ?i))) \<le> length (buffer (Abort (heap w' ! ?i)))
                \<and> length (buffer (Restart (heap w ! ?i)))
                    \<le> length (buffer (Restart (heap w' ! ?i))))"
    using d e by simp
  note calls_part = inv[OF wf ih ta]
  show ?thesis
    by (intro exI[of _ n] exI[of _ f] exI[of _ st] exI[of _ tm] conjI)
       (fact po ta1 ta tm calls_part armed_part exited_part)+
qed

theorem controller_three_states_witness:
  "run_events example_host [] init = Some init
   \<and> ScheduleImpl example_host (ConsCell (Integer 0) (ConsCell callback1 NilData)) 0 init
       = (Returned (Inr handle0), scheduled_world)
   \<and> run_events example_host [] scheduled_world = Some scheduled_world
   \<and> run_events example_host [Task 0 OnTimer] scheduled_world = Some fired_world
   \<and> run_events example_host [Call ''abandon'' OnWake handle0_args 0, Task 0 OnAbort]
        scheduled_world = Some aborted_world
   \<and> run_events example_host [Call ''abandon'' OnWake handle0_args 0, Tick 7] aborted_world
       = Some (with_abort aborted_world
                 \<lparr>clock := 7, evals := evals aborted_world @ [(handle0, 0)]\<rparr>)
   \<and> tasks scheduled_world ! 0 = ScheduleTask 0 0 callback1 handle0 0 Armed
   \<and> buffer (Abort (heap scheduled_world ! 0)) = []
   \<and> run_task example_host 0 OnAbort scheduled_world = None
   \<and> run_task example_host 0 OnTimer scheduled_world \<noteq> None
   \<and> invoked 0 scheduled_world = []
   \<and> invoked 0 fired_world = [(callback1, InternalMakeList handle0, 0)]
   \<and> run_task example_host 0 OnTimer fired_world = None
   \<and> invoked 0 aborted_world = []
   \<and> run_task example_host 0 OnTimer aborted_world = None
   \<and> invoked 0 (with_abort aborted_world
                 \<lparr>clock := 7, evals := evals aborted_world @ [(handle0, 0)]\<rparr>) = []"
proof -
  let ?args = "ConsCell (Integer 0) (ConsCell callback1 NilData)"
  let ?late = "with_abort aborted_world\<lparr>clock := 7, evals := evals aborted_world @ [(handle0, 0)]\<rparr>"
  have r0: "run_events example_host [] init = Some init" by simp
  have sc: "ScheduleImpl example_host ?args 0 init = (Returned (Inr handle0), scheduled_world)"
    by (simp add: model_defs example_defs)
  have ra: "run_events example_host [] scheduled_world = Some scheduled_world" by simp
  have rf: "run_events example_host [Task 0 OnTimer] scheduled_world = Some fired_world"
    by (simp add: model_defs example_defs)
  have rb: "run_events example_host [Call ''abandon'' OnWake handle0_args 0, Task 0 OnAbort]
        scheduled_world = Some aborted_world"
    by (simp add: model_defs example_defs)
  have rl: "run_events example_host [Call ''abandon'' OnWake handle0_args 0, Tick 7] aborted_world
       = Some ?late"
    by (simp add: model_defs example_defs)
  have ta: "tasks scheduled_world ! 0 = ScheduleTask 0 0 callback1 handle0 0 Armed"
    and tf: "tasks fired_world ! 0 = ScheduleTask 0 0 callback1 handle0 0 Fired"
    and tb: "tasks aborted_world ! 0 = ScheduleTask 0 0 callback1 handle0 0 Aborted"
    and ba: "buffer (Abort (heap scheduled_world ! 0)) = []"
    by (simp_all add: example_defs make_chan_def)
  have z: "length (heap init) = 0" by (simp add: init_def)
  from controller_three_states[OF r0 sc ra, unfolded z] ta ba
  have 1: "run_task example_host 0 OnAbort scheduled_world = None"
    and 2: "invoked 0 scheduled_world = []"
    by auto
  have el: "ScheduleTimer (heap scheduled_world ! 0) = Some (NewTimer 0 0)"
    "recv (C (expire (clock scheduled_world) (NewTimer 0 0))) \<noteq> None"
    by (simp_all add: example_defs model_defs)
  from controller_three_states[OF r0 sc ra, unfolded z] ta el
  have 8: "run_task example_host 0 OnTimer scheduled_world \<noteq> None"
    by auto
  from controller_three_states[OF r0 sc rf, unfolded z] tf
  have 3: "invoked 0 fired_world = [(callback1, InternalMakeList handle0, 0)]"
    and 4: "run_task example_host 0 OnTimer fired_world = None"
    by auto
  from controller_three_states[OF r0 sc rb, unfolded z] obtain n f st tm where
    t: "tasks aborted_world ! 0 = ScheduleTask 0 n f handle0 0 st"
    and c: "invoked 0 aborted_world = (if st = Fired then [(f, InternalMakeList handle0, 0)] else [])"
    and e: "st \<noteq> Armed \<longrightarrow>
          (\<forall>cs. run_task example_host 0 cs aborted_world = None)
          \<and> (\<forall>evs' w'. run_events example_host evs' aborted_world = Some w' \<longrightarrow>
                tasks w' ! 0 = tasks aborted_world ! 0
                \<and> invoked 0 w' = invoked 0 aborted_world
                \<and> length (buffer (Abort (heap aborted_world ! 0)))
                    \<le> length (buffer (Abort (heap w' ! 0)))
                \<and> length (buffer (Restart (heap aborted_world ! 0)))
                    \<le> length (buffer (Restart (heap w' ! 0))))"
    by blast
  from t tb have st: "st = Aborted" by simp
  from c st have 5: "invoked 0 aborted_world = []" by simp
  from e st have 6: "run_task example_host 0 OnTimer aborted_world = None" by simp
  from e st rl have "invoked 0 ?late = invoked 0 aborted_world" by blast
  with 5 have 7: "invoked 0 ?late = []" by simp
  from r0 sc ra rf rb rl ta ba 1 2 3 4 5 6 7 8 show ?thesis by blast
qed

end
